theory Spec2Isabelle
  imports Main "HOL-Library.Multiset"
begin

section \<open>Strings of the host language\<close>

text \<open>
  A string of the source language is a sequence of UTF-16 code units, and \<open>length\<close> is
  its \<^verbatim>\<open>.length\<close>. A code unit is a natural number below \<open>65536\<close>; string
  literals of the source that are plain ASCII are written with \<open>lit\<close>.
\<close>

type_synonym code_unit = nat
type_synonym ustring = "code_unit list"

definition lit :: "string \<Rightarrow> ustring" where
  "lit s = map of_char s"

text \<open>\<^verbatim>\<open>Array.prototype.join\<close> on an array of strings.\<close>

fun join :: "ustring \<Rightarrow> ustring list \<Rightarrow> ustring" where
  "join sep [] = []"
| "join sep [x] = x"
| "join sep (x # y # ys) = x @ sep @ join sep (y # ys)"

text \<open>\<^verbatim>\<open>String.prototype.repeat\<close>.\<close>

definition repeat :: "ustring \<Rightarrow> nat \<Rightarrow> ustring" where
  "repeat s n = concat (replicate n s)"

text \<open>
  \<^verbatim>\<open>String.prototype.padEnd\<close> with the default filler, a space. The target length
  is a number that may be negative or smaller than the length of the string; the string
  is then returned as it is.
\<close>

definition padEnd :: "ustring \<Rightarrow> int \<Rightarrow> ustring" where
  "padEnd s targetLength = s @ replicate (nat (targetLength - int (length s))) 32"

text \<open>
  The white space of the language: what \<^verbatim>\<open>\s\<close> matches in a regular expression
  and what \<^verbatim>\<open>trim\<close> removes (TAB, LF, VT, FF, CR, the space, NBSP, U+1680,
  U+2000 to U+200A, the line and paragraph separators, U+202F, U+205F, U+3000, U+FEFF).
\<close>

definition is_space :: "code_unit \<Rightarrow> bool" where
  "is_space c \<longleftrightarrow>
     (9 \<le> c \<and> c \<le> 13) \<or> c = 32 \<or> c = 0xA0 \<or> c = 0x1680 \<or>
     (0x2000 \<le> c \<and> c \<le> 0x200A) \<or> c = 0x2028 \<or> c = 0x2029 \<or>
     c = 0x202F \<or> c = 0x205F \<or> c = 0x3000 \<or> c = 0xFEFF"

definition trimStart :: "ustring \<Rightarrow> ustring" where
  "trimStart s = dropWhile is_space s"

definition trimEnd :: "ustring \<Rightarrow> ustring" where
  "trimEnd s = rev (dropWhile is_space (rev s))"

definition trim :: "ustring \<Rightarrow> ustring" where
  "trim s = trimEnd (trimStart s)"

text \<open>
  \<^verbatim>\<open>.replace(/\s+/g, " ")\<close>: every maximal run of white space becomes one space.
\<close>

function collapse_spaces :: "ustring \<Rightarrow> ustring" where
  "collapse_spaces [] = []"
| "collapse_spaces (c # cs) =
     (if is_space c then 32 # collapse_spaces (dropWhile is_space cs)
      else c # collapse_spaces cs)"
  by pat_completeness auto
termination
  by (relation "measure length") (auto simp: length_dropWhile_le less_Suc_eq_le)

text \<open>The removal of the combining marks U+0300 to U+036F (the second step of \<open>normalize\<close>).\<close>

definition is_diacritic :: "code_unit \<Rightarrow> bool" where
  "is_diacritic c \<longleftrightarrow> 0x300 \<le> c \<and> c \<le> 0x36F"

definition remove_accentuation :: "ustring \<Rightarrow> ustring" where
  "remove_accentuation s = filter (\<lambda>c. \<not> is_diacritic c) s"

text \<open>
  \<^verbatim>\<open>.replace(/[\s\W_]/g, "")\<close>. The expression has no \<^verbatim>\<open>u\<close> flag, so
  \<^verbatim>\<open>\w\<close> is the ASCII class \<^verbatim>\<open>[A-Za-z0-9_]\<close> and \<^verbatim>\<open>\W\<close> is every
  other code unit.
\<close>

definition is_word :: "code_unit \<Rightarrow> bool" where
  "is_word c \<longleftrightarrow>
     (0x41 \<le> c \<and> c \<le> 0x5A) \<or> (0x61 \<le> c \<and> c \<le> 0x7A) \<or>
     (0x30 \<le> c \<and> c \<le> 0x39) \<or> c = 0x5F"

definition strict_removed :: "code_unit \<Rightarrow> bool" where
  "strict_removed c \<longleftrightarrow> is_space c \<or> \<not> is_word c \<or> c = 0x5F"

text \<open>
  UTF-16. A code point from U+10000 on is written as two code units, a high surrogate
  (\<open>0xD800\<close> to \<open>0xDBFF\<close>) and a low one (\<open>0xDC00\<close> to \<open>0xDFFF\<close>); a surrogate
  that is not part of such a pair stands for itself. \<open>code_points\<close> reads a string as
  the operations of the library that work on code points do, and \<open>code_units\<close> writes
  code points back.
\<close>

type_synonym code_point = nat

definition is_high_surrogate :: "code_unit \<Rightarrow> bool" where
  "is_high_surrogate c \<longleftrightarrow> 0xD800 \<le> c \<and> c \<le> 0xDBFF"

definition is_low_surrogate :: "code_unit \<Rightarrow> bool" where
  "is_low_surrogate c \<longleftrightarrow> 0xDC00 \<le> c \<and> c \<le> 0xDFFF"

fun code_points :: "ustring \<Rightarrow> code_point list" where
  "code_points [] = []"
| "code_points [a] = [a]"
| "code_points (a # b # s) =
     (if is_high_surrogate a \<and> is_low_surrogate b
      then (0x10000 + (a - 0xD800) * 0x400 + (b - 0xDC00)) # code_points s
      else a # code_points (b # s))"

definition units_of_point :: "code_point \<Rightarrow> ustring" where
  "units_of_point c =
     (if c < 0x10000 then [c]
      else [0xD800 + (c - 0x10000) div 0x400, 0xDC00 + (c - 0x10000) mod 0x400])"

definition code_units :: "code_point list \<Rightarrow> ustring" where
  "code_units cs = concat (map units_of_point cs)"

section \<open>The platform\<close>

text \<open>
  Three operations of the standard library are driven by the tables of the Unicode
  Character Database, which are no part of this repository: canonical decomposition
  (\<^verbatim>\<open>normalize("NFD")\<close>), \<^verbatim>\<open>toLowerCase\<close> and \<^verbatim>\<open>localeCompare\<close>.
  The functions of the library take them as a parameter, a record of three functions.
\<close>

record platform =
  nfd :: "ustring \<Rightarrow> ustring"
  toLowerCase :: "ustring \<Rightarrow> ustring"
  localeCompare :: "ustring \<Rightarrow> ustring \<Rightarrow> int"

section \<open>The normalizer\<close>

text \<open>\<^verbatim>\<open>removeWhitespace\<close>: \<^verbatim>\<open>str.replace(/\s+/g, "")\<close>.\<close>

definition removeWhitespace :: "ustring \<Rightarrow> ustring" where
  "removeWhitespace str = filter (\<lambda>c. \<not> is_space c) str"

text \<open>
  \<^verbatim>\<open>stripCliColors\<close>: \<^verbatim>\<open>str.replace(/\x1b\[[0-9;?]*[ -/]*[@-~]/g, "")\<close>.
  The three character classes of the expression are pairwise disjoint, so the greedy
  match of each starred class is the only one that can be completed, and matching at a
  position needs no backtracking. \<open>match_escape\<close> matches the expression at the start
  of a string and returns what follows the match.
\<close>

definition is_parameter :: "code_unit \<Rightarrow> bool" where
  "is_parameter c \<longleftrightarrow> (0x30 \<le> c \<and> c \<le> 0x39) \<or> c = 0x3B \<or> c = 0x3F"

definition is_intermediate :: "code_unit \<Rightarrow> bool" where
  "is_intermediate c \<longleftrightarrow> 0x20 \<le> c \<and> c \<le> 0x2F"

definition is_final :: "code_unit \<Rightarrow> bool" where
  "is_final c \<longleftrightarrow> 0x40 \<le> c \<and> c \<le> 0x7E"

definition match_escape :: "ustring \<Rightarrow> ustring option" where
  "match_escape s =
     (case s of
        a # b # rest \<Rightarrow>
          if a = 0x1B \<and> b = 0x5B then
            (case dropWhile is_intermediate (dropWhile is_parameter rest) of
               [] \<Rightarrow> None
             | f # after \<Rightarrow> if is_final f then Some after else None)
          else None
      | _ \<Rightarrow> None)"

function stripCliColors :: "ustring \<Rightarrow> ustring" where
  "stripCliColors [] = []"
| "stripCliColors (c # cs) =
     (case match_escape (c # cs) of
        Some rest \<Rightarrow> stripCliColors rest
      | None \<Rightarrow> c # stripCliColors cs)"
  by pat_completeness auto
termination
proof (relation "measure length")
  show "wf (measure length)" by simp
next
  fix c :: code_unit and cs r :: ustring
  assume m: "match_escape (c # cs) = Some r"
  then obtain b rest where s: "cs = b # rest"
    by (cases cs) (auto simp: match_escape_def)
  from m s obtain f where f: "dropWhile is_intermediate (dropWhile is_parameter rest) = f # r"
    by (auto simp: match_escape_def split: list.splits if_splits)
  have "length (f # r) \<le> length rest"
    unfolding f [symmetric]
    by (rule order_trans [OF length_dropWhile_le length_dropWhile_le])
  with s show "(r, c # cs) \<in> measure length" by simp
next
  fix c :: code_unit and cs :: ustring
  show "(cs, c # cs) \<in> measure length" by simp
qed

text \<open>
  \<^verbatim>\<open>normalize(str, strict?, stripCliColors?)\<close>. An omitted flag is
  \<^verbatim>\<open>undefined\<close>, which both conditionals read as false. With \<open>strict\<close> false the
  last replacement is \<^verbatim>\<open>.replace("", "")\<close>, which changes nothing.
\<close>

definition normalize :: "platform \<Rightarrow> ustring \<Rightarrow> bool \<Rightarrow> bool \<Rightarrow> ustring" where
  "normalize P str strict stripColors =
     (let lowered = toLowerCase P (trim (collapse_spaces (remove_accentuation (nfd P str))));
          normalizedStr = (if strict then filter (\<lambda>c. \<not> strict_removed c) lowered else lowered)
      in if stripColors then stripCliColors normalizedStr else normalizedStr)"

text \<open>
  \<^verbatim>\<open>UnknownString\<close> is \<^verbatim>\<open>undefined | null | string\<close>. \<open>NotAString\<close> stands
  for a value of any other run-time type, which the declared type excludes and the
  \<^verbatim>\<open>typeof\<close> test of \<open>validate\<close> rejects.
\<close>

datatype unknown_string = Undefined | Null | NotAString | Str ustring

fun validate :: "platform \<Rightarrow> unknown_string \<Rightarrow> bool" where
  "validate P Undefined = False"
| "validate P Null = False"
| "validate P NotAString = False"
| "validate P (Str str) = (if normalize P str False False = [] then False else True)"

text \<open>
  \<^verbatim>\<open>normalizeArray\<close>: the callback of \<^verbatim>\<open>map\<close> takes one argument, so
  \<open>normalize\<close> is called with both flags omitted. Only strings pass \<open>validate\<close>,
  which is what the type guard \<^verbatim>\<open>str is string\<close> records.
\<close>

fun the_string :: "unknown_string \<Rightarrow> ustring" where
  "the_string (Str s) = s"
| "the_string _ = []"

definition normalizeArray :: "platform \<Rightarrow> unknown_string list \<Rightarrow> ustring list" where
  "normalizeArray P strArr =
     (let validated = filter (\<lambda>str. validate P str) strArr
      in map (\<lambda>str. normalize P (the_string str) False False) validated)"

text \<open>
  \<^verbatim>\<open>sortAlphabetically\<close>. Arrays are objects on the heap and a variable holds a
  reference, so the model has a store: \<open>arrays h r\<close> is the content of the array
  behind reference \<open>r\<close>, and the references below \<open>next_ref h\<close> are the allocated
  ones. \<^verbatim>\<open>toSorted\<close> reads its receiver and allocates the array it returns.

  The order that \<^verbatim>\<open>toSorted\<close> produces is the stable one: an element goes in
  front of the first element that the comparison function does not put before it
  (result \<open>\<le> 0\<close>). For a comparison function that is no consistent order the language
  leaves the order to the implementation.
\<close>

type_synonym ref = nat

record heap =
  arrays :: "ref \<Rightarrow> ustring list"
  next_ref :: ref

definition alloc :: "heap \<Rightarrow> ustring list \<Rightarrow> heap \<times> ref" where
  "alloc h xs = (h\<lparr>arrays := (arrays h)(next_ref h := xs), next_ref := Suc (next_ref h)\<rparr>, next_ref h)"

fun insert_sorted :: "('a \<Rightarrow> 'a \<Rightarrow> int) \<Rightarrow> 'a \<Rightarrow> 'a list \<Rightarrow> 'a list" where
  "insert_sorted compareFn x [] = [x]"
| "insert_sorted compareFn x (y # ys) =
     (if compareFn x y \<le> 0 then x # y # ys else y # insert_sorted compareFn x ys)"

definition sort_with :: "('a \<Rightarrow> 'a \<Rightarrow> int) \<Rightarrow> 'a list \<Rightarrow> 'a list" where
  "sort_with compareFn xs = foldr (insert_sorted compareFn) xs []"

definition toSorted :: "heap \<Rightarrow> ref \<Rightarrow> (ustring \<Rightarrow> ustring \<Rightarrow> int) \<Rightarrow> heap \<times> ref" where
  "toSorted h this compareFn = alloc h (sort_with compareFn (arrays h this))"

text \<open>The comparison function that \<open>sortAlphabetically\<close> passes to \<^verbatim>\<open>toSorted\<close>.\<close>

definition compareFn :: "platform \<Rightarrow> ustring \<Rightarrow> ustring \<Rightarrow> int" where
  "compareFn P a b = localeCompare P (normalize P a False False) (normalize P b False False)"

definition sortAlphabetically :: "platform \<Rightarrow> heap \<Rightarrow> ref \<Rightarrow> heap \<times> ref" where
  "sortAlphabetically P h strArr = toSorted h strArr (compareFn P)"

text \<open>
  A comparison function is consistent when any two elements are comparable and the
  comparison is transitive, as the collation of \<^verbatim>\<open>localeCompare\<close> is.
\<close>

definition consistent_comparison :: "('a \<Rightarrow> 'a \<Rightarrow> int) \<Rightarrow> bool" where
  "consistent_comparison cmp \<longleftrightarrow>
     (\<forall>x y. cmp x y \<le> 0 \<or> cmp y x \<le> 0) \<and>
     (\<forall>x y z. cmp x y \<le> 0 \<and> cmp y z \<le> 0 \<longrightarrow> cmp x z \<le> 0)"

text \<open>
  Modelled from the spec: \<^verbatim>\<open>isAnagram\<close> is called by the tests of the repository
  and is missing from its source. The specification gives it as: true iff the
  lowercased, whitespace-stripped, sorted character sequences of \<open>a\<close> and \<open>b\<close> are equal
  and \<open>a\<close> is not \<open>b\<close> verbatim.
\<close>

definition isAnagram :: "platform \<Rightarrow> ustring \<Rightarrow> ustring \<Rightarrow> bool" where
  "isAnagram P a b \<longleftrightarrow>
     sort (removeWhitespace (toLowerCase P a)) = sort (removeWhitespace (toLowerCase P b)) \<and> a \<noteq> b"

section \<open>The table renderer\<close>

subsection \<open>The values of a record\<close>

text \<open>
  The cells of a record are declared as \<^verbatim>\<open>string | number | unknown[]\<close>, and an
  array may hold any value. \<open>table\<close> only asks of a value whether it is truthy and
  what string it converts to, so the model keeps of a value what decides these two.

  A number is not-a-number, an infinity, a zero or a finite number given by its shortest
  decimal representation, which is how \<^verbatim>\<open>Number.prototype.toString\<close> starts:
  \<open>Decimal negative ds n\<close> has the digits \<open>ds\<close> (\<open>k\<close> of them, the first and the
  last not zero) and the value \<open>0.ds \<times> 10\<^sup>n\<close>, that is, \<open>ds \<times> 10\<^sup>n\<^sup>-\<^sup>k\<close>.
  \<open>18446744073709551616\<close> is \<open>Decimal False (lit ''18446744073709552'') 20\<close>,
  which \<^verbatim>\<open>toString\<close> writes as \<^verbatim>\<open>18446744073709552000\<close>.
\<close>

datatype number = NaN | Infinite bool | Zero bool | Decimal bool ustring int

function digits :: "nat \<Rightarrow> ustring" where
  "digits n = (if n < 10 then [48 + n] else digits (n div 10) @ [48 + n mod 10])"
  by pat_completeness auto
termination
  by (relation "measure id") auto

declare digits.simps [simp del]

text \<open>
  \<^verbatim>\<open>Number::toString\<close> with radix 10: plain digits when the decimal point is within
  21 places after the first digit or 6 places before it, and the exponent notation
  otherwise.
\<close>

definition decimal_text :: "ustring \<Rightarrow> int \<Rightarrow> ustring" where
  "decimal_text ds n =
     (let k = int (length ds) in
      if k \<le> n \<and> n \<le> 21 then ds @ replicate (nat (n - k)) 48
      else if 0 < n \<and> n \<le> 21 then take (nat n) ds @ lit ''.'' @ drop (nat n) ds
      else if - 6 < n \<and> n \<le> 0 then lit ''0.'' @ replicate (nat (- n)) 48 @ ds
      else
        let exponentSign = (if n < 0 then lit ''-'' else lit ''+'');
            exponent = digits (nat \<bar>n - 1\<bar>)
        in if k = 1 then ds @ lit ''e'' @ exponentSign @ exponent
           else take 1 ds @ lit ''.'' @ drop 1 ds @ lit ''e'' @ exponentSign @ exponent)"

fun Number_toString :: "number \<Rightarrow> ustring" where
  "Number_toString NaN = lit ''NaN''"
| "Number_toString (Zero negative) = lit ''0''"
| "Number_toString (Infinite negative) = (if negative then lit ''-Infinity'' else lit ''Infinity'')"
| "Number_toString (Decimal negative ds n) =
     (if negative then lit ''-'' @ decimal_text ds n else decimal_text ds n)"

text \<open>
  An exception is a value: an \<^verbatim>\<open>Error\<close> or a \<^verbatim>\<open>TypeError\<close> with its message.
  A computation that may throw returns \<open>Inl\<close> of the exception or \<open>Inr\<close> of its
  result; \<open>and_then\<close> goes on with the result, and \<open>try_map\<close> is \<^verbatim>\<open>map\<close>
  with a callback that may throw: the first exception, from left to right, is the
  outcome of the traversal.
\<close>

datatype js_error = Error ustring | TypeError ustring

definition and_then :: "js_error + 'a \<Rightarrow> ('a \<Rightarrow> js_error + 'b) \<Rightarrow> js_error + 'b" where
  "and_then r f = (case r of Inl e \<Rightarrow> Inl e | Inr x \<Rightarrow> f x)"

fun collect :: "(js_error + 'a) list \<Rightarrow> js_error + 'a list" where
  "collect [] = Inr []"
| "collect (r # rs) =
     (case r of
        Inl e \<Rightarrow> Inl e
      | Inr y \<Rightarrow> (case collect rs of Inl e \<Rightarrow> Inl e | Inr ys \<Rightarrow> Inr (y # ys)))"

definition try_map :: "('a \<Rightarrow> js_error + 'b) \<Rightarrow> 'a list \<Rightarrow> js_error + 'b list" where
  "try_map f xs = collect (map f xs)"

text \<open>
  \<^verbatim>\<open>String(e)\<close> of an exception is \<^verbatim>\<open>Error.prototype.toString\<close>: the name, and
  after a colon the message when there is one.
\<close>

fun String_of_error :: "js_error \<Rightarrow> ustring" where
  "String_of_error (Error message) =
     (if message = [] then lit ''Error'' else lit ''Error: '' @ message)"
| "String_of_error (TypeError message) =
     (if message = [] then lit ''TypeError'' else lit ''TypeError: '' @ message)"

text \<open>
  The values. \<open>JObject r\<close> is any object that is no array, or a function: \<open>r\<close> is
  what its conversion to a string gives, a string or the exception that the conversion
  throws (as for an object without prototype). A symbol is given by its description.
\<close>

datatype jsvalue =
    JUndefined
  | JNull
  | JBoolean bool
  | JNumber number
  | JString ustring
  | JSymbol ustring
  | JArray "jsvalue list"
  | JObject "js_error + ustring"

text \<open>
  The abstract operation \<^verbatim>\<open>ToString\<close>, which \<^verbatim>\<open>Array.prototype.join\<close> and a
  template literal apply. An array is joined with commas, an element that is
  \<^verbatim>\<open>undefined\<close> or \<^verbatim>\<open>null\<close> giving the empty string; a symbol is not
  converted (the message is the one of V8, the engine of the run-time of the
  repository).
\<close>

fun ToString :: "jsvalue \<Rightarrow> js_error + ustring" where
  "ToString JUndefined = Inr (lit ''undefined'')"
| "ToString JNull = Inr (lit ''null'')"
| "ToString (JBoolean b) = Inr (if b then lit ''true'' else lit ''false'')"
| "ToString (JNumber n) = Inr (Number_toString n)"
| "ToString (JString s) = Inr s"
| "ToString (JSymbol description) = Inl (TypeError (lit ''Cannot convert a Symbol value to a string''))"
| "ToString (JObject r) = r"
| "ToString (JArray xs) =
     and_then
       (collect (map (\<lambda>x. if x = JUndefined \<or> x = JNull then Inr [] else ToString x) xs))
       (\<lambda>texts. Inr (join (lit '','') texts))"

text \<open>
  The method \<^verbatim>\<open>toString\<close> of a value. It is the conversion above except on a
  symbol, which it describes, and on \<^verbatim>\<open>undefined\<close> and \<^verbatim>\<open>null\<close>, which have no
  methods.
\<close>

fun toString_method :: "jsvalue \<Rightarrow> js_error + ustring" where
  "toString_method JUndefined =
     Inl (TypeError (lit ''Cannot read properties of undefined (reading 'toString')''))"
| "toString_method JNull =
     Inl (TypeError (lit ''Cannot read properties of null (reading 'toString')''))"
| "toString_method (JSymbol description) = Inr (lit ''Symbol('' @ description @ lit '')'')"
| "toString_method v = ToString v"

text \<open>
  \<^verbatim>\<open>!value\<close> is true of \<^verbatim>\<open>undefined\<close>, \<^verbatim>\<open>null\<close>, \<^verbatim>\<open>false\<close>, the zeros,
  not-a-number and the empty string.
\<close>

fun truthy :: "jsvalue \<Rightarrow> bool" where
  "truthy JUndefined = False"
| "truthy JNull = False"
| "truthy (JBoolean b) = b"
| "truthy (JNumber n) = (case n of NaN \<Rightarrow> False | Zero negative \<Rightarrow> False | _ \<Rightarrow> True)"
| "truthy (JString s) = (s \<noteq> [])"
| "truthy (JSymbol description) = True"
| "truthy (JArray xs) = True"
| "truthy (JObject r) = True"

subsection \<open>Records\<close>

text \<open>
  A record is an object: the list of its own properties, each key once, in the order of
  \<^verbatim>\<open>Object.keys\<close>, and the properties that it inherits from its prototype.
  \<^verbatim>\<open>row[header]\<close> looks among the own properties first, then among the inherited
  ones, and is \<^verbatim>\<open>undefined\<close> when there is none. The properties are data
  properties: reading one runs no code of the caller.
\<close>

record row =
  own :: "(ustring \<times> jsvalue) list"
  inherited :: "(ustring \<times> jsvalue) list"

definition get_property :: "row \<Rightarrow> ustring \<Rightarrow> jsvalue" where
  "get_property r key =
     (case map_of (own r) key of
        Some v \<Rightarrow> v
      | None \<Rightarrow> (case map_of (inherited r) key of Some v \<Rightarrow> v | None \<Rightarrow> JUndefined))"

text \<open>
  What an object written as a literal inherits from \<^verbatim>\<open>Object.prototype\<close>: eleven
  functions, which V8 converts to \<^verbatim>\<open>function name() { [native code] }\<close>, and
  \<^verbatim>\<open>__proto__\<close>, the prototype itself.
\<close>

definition native_function :: "string \<Rightarrow> ustring \<times> jsvalue" where
  "native_function name =
     (lit name, JObject (Inr (lit ''function '' @ lit name @ lit ''() { [native code] }'')))"

definition Object_prototype :: "(ustring \<times> jsvalue) list" where
  "Object_prototype =
     [(lit ''constructor'', JObject (Inr (lit ''function Object() { [native code] }''))),
      native_function ''__defineGetter__'', native_function ''__defineSetter__'',
      native_function ''hasOwnProperty'', native_function ''__lookupGetter__'',
      native_function ''__lookupSetter__'', native_function ''isPrototypeOf'',
      native_function ''propertyIsEnumerable'', native_function ''toString'',
      native_function ''valueOf'',
      (lit ''__proto__'', JObject (Inr (lit ''[object Object]''))),
      native_function ''toLocaleString'']"

definition object_literal :: "(ustring \<times> jsvalue) list \<Rightarrow> row" where
  "object_literal properties = \<lparr>own = properties, inherited = Object_prototype\<rparr>"

definition Object_keys :: "row \<Rightarrow> ustring list" where
  "Object_keys r = map fst (own r)"

text \<open>\<^verbatim>\<open>row[header]?.toString() ?? ""\<close>\<close>

definition cell_text :: "row \<Rightarrow> ustring \<Rightarrow> js_error + ustring" where
  "cell_text r header =
     (let value = get_property r header
      in if value = JUndefined \<or> value = JNull then Inr [] else toString_method value)"

text \<open>
  \<^verbatim>\<open>Object.entries(row)\<close> inside a template literal: the array of the pairs of a key
  and a value is converted to a string.
\<close>

definition entries_toString :: "row \<Rightarrow> js_error + ustring" where
  "entries_toString r = ToString (JArray (map (\<lambda>(k, v). JArray [JString k, v]) (own r)))"

subsection \<open>The renderer\<close>

text \<open>\<^verbatim>\<open>Math.max(first, ...rest)\<close>\<close>

definition Math_max :: "nat \<Rightarrow> nat list \<Rightarrow> nat" where
  "Math_max first rest = fold max rest first"

text \<open>The separator characters \<^verbatim>\<open>chars\<close>, box-drawing characters U+2500 to U+253C.\<close>

definition chars_y :: ustring where "chars_y = [32, 0x2502, 32]"
definition chars_x :: ustring where "chars_x = [0x2500]"
definition chars_full :: ustring where "chars_full = [0x253C]"
definition chars_xDown :: ustring where "chars_xDown = [0x252C]"
definition chars_xUp :: ustring where "chars_xUp = [0x2534]"
definition chars_yLeft :: ustring where "chars_yLeft = [0x251C]"
definition chars_yRight :: ustring where "chars_yRight = [0x2524]"
definition chars_xlUp :: ustring where "chars_xlUp = [0x250C]"
definition chars_xlDown :: ustring where "chars_xlDown = [0x2514]"
definition chars_xrUp :: ustring where "chars_xrUp = [0x2510]"
definition chars_xrDown :: ustring where "chars_xrDown = [0x2518]"

text \<open>
  The widths of the columns. The conversion of a cell to a string may throw, and this
  computation is outside the \<^verbatim>\<open>try\<close> block of \<open>table\<close>.
\<close>

definition columnWidths :: "platform \<Rightarrow> row list \<Rightarrow> ustring list \<Rightarrow> js_error + nat list" where
  "columnWidths P strArr headers =
     try_map (\<lambda>header.
                and_then
                  (try_map (\<lambda>row.
                              and_then (cell_text row header)
                                (\<lambda>str. let strLength = length (normalize P str False True)
                                       in Inr (strLength + 1)))
                           strArr)
                  (\<lambda>lengths. Inr (Math_max (length header) lengths)))
             headers"

text \<open>
  \<^verbatim>\<open>fmtCell\<close>. Both callers pass an index of \<open>headers\<close>, which is in range; out of
  range the sum is not a number and \<^verbatim>\<open>padEnd\<close> pads nothing.
\<close>

definition fmtCell :: "platform \<Rightarrow> nat list \<Rightarrow> ustring \<Rightarrow> nat \<Rightarrow> ustring" where
  "fmtCell P widths value index =
     (let diff = int (length (trim value)) - int (length (normalize P value False True))
      in if index < length widths then padEnd (trim value) (int (widths ! index) + diff)
         else trim value)"

definition createSeparator :: "nat list \<Rightarrow> ustring \<Rightarrow> ustring \<Rightarrow> ustring \<Rightarrow> ustring" where
  "createSeparator widths left middle right =
     left @ join middle (map (\<lambda>w. repeat chars_x (w + 2)) widths) @ right"

text \<open>
  The exception for a row that cannot be shown. Its message converts the entries of the
  row to a string, which may throw in its turn.
\<close>

definition inconsistent_row :: "row \<Rightarrow> js_error" where
  "inconsistent_row r =
     (case entries_toString r of
        Inl e \<Rightarrow> e
      | Inr entries \<Rightarrow>
          Error (lit ''Unable to represent data. Row '' @ entries @
                 lit '' is not consistent with the rest of the table.''))"

definition enumerate_headers :: "ustring list \<Rightarrow> (ustring \<times> nat) list" where
  "enumerate_headers headers = zip headers [0..<length headers]"

text \<open>
  The callback of the data rows. The test is
  \<^verbatim>\<open>!row[header] || !this.validate(row[header]?.toString() ?? "")\<close>, whose second part
  is evaluated when the first is false; then comes \<^verbatim>\<open>row[header].toString()\<close>.
\<close>

definition format_cell :: "platform \<Rightarrow> nat list \<Rightarrow> row \<Rightarrow> ustring \<times> nat \<Rightarrow> js_error + ustring" where
  "format_cell P widths r hi =
     (case hi of (header, i) \<Rightarrow>
        if \<not> truthy (get_property r header) then Inl (inconsistent_row r)
        else
          and_then (cell_text r header)
            (\<lambda>text. if \<not> validate P (Str text) then Inl (inconsistent_row r)
                    else and_then (toString_method (get_property r header))
                           (\<lambda>value. Inr (fmtCell P widths value i))))"

definition format_row :: "platform \<Rightarrow> nat list \<Rightarrow> ustring list \<Rightarrow> row \<Rightarrow> js_error + ustring" where
  "format_row P widths headers r =
     and_then (try_map (format_cell P widths r) (enumerate_headers headers))
       (\<lambda>cells. Inr (join chars_y cells))"

text \<open>
  \<open>table\<close>. The result is \<open>Inr\<close> of the string that the function returns, or
  \<open>Inl\<close> of an exception that it lets through: the widths of the columns, the
  separators and the header row are computed before the \<^verbatim>\<open>try\<close> block, which
  turns an exception of the data rows into the string that it returns.
\<close>

definition table :: "platform \<Rightarrow> row list \<Rightarrow> js_error + ustring" where
  "table P strArr =
     (if length strArr = 0 then Inr (lit ''No data to display.'')
      else
        let headers = Object_keys (hd strArr)
        in and_then (columnWidths P strArr headers)
             (\<lambda>widths.
                let middle = createSeparator widths chars_yLeft chars_full chars_yRight;
                    top = createSeparator widths chars_xlUp chars_xDown chars_xrUp;
                    bottom = createSeparator widths chars_xlDown chars_xUp chars_xrDown;
                    headerRow = trimStart chars_y
                        @ join chars_y (map (\<lambda>(h, i). fmtCell P widths h i) (enumerate_headers headers))
                        @ trimEnd chars_y
                in case try_map (format_row P widths headers) strArr of
                     Inl e \<Rightarrow> Inr (String_of_error e)
                   | Inr dataRows \<Rightarrow>
                       Inr (join [10] ([top, headerRow, middle]
                                       @ map (\<lambda>r. [0x2502, 32] @ r @ [32, 0x2502]) dataRows
                                       @ [bottom]))))"

section \<open>The platform from the Unicode Character Database\<close>

text \<open>
  What \<^verbatim>\<open>normalize("NFD")\<close> and \<^verbatim>\<open>toLowerCase\<close> do is laid down by the
  Unicode standard as algorithms over the tables of the Unicode Character Database;
  the tables are those of the version of Unicode that the run-time implements. Of the
  database the model keeps, for every code point, its full canonical decomposition (the
  code point itself when it has none), its canonical combining class and its lower-case
  mapping. The lower-case mapping takes the code points before (the nearest first) and
  after the code point, on which the mapping of U+03A3 depends.
\<close>

record unicode_data =
  decomposition :: "code_point \<Rightarrow> code_point list"
  combining_class :: "code_point \<Rightarrow> nat"
  lower_case :: "code_point list \<Rightarrow> code_point \<Rightarrow> code_point list \<Rightarrow> code_point list"

text \<open>
  The canonical ordering algorithm: within a run of code points of non-zero combining
  class, the code points are sorted by class, and code points of equal class keep their
  order. \<open>order_insert cc c s\<close> puts \<open>c\<close> in front of an ordered string and moves it
  to its place.
\<close>

fun order_insert :: "(code_point \<Rightarrow> nat) \<Rightarrow> code_point \<Rightarrow> code_point list \<Rightarrow> code_point list" where
  "order_insert cc c [] = [c]"
| "order_insert cc c (d # ds) =
     (if cc d \<noteq> 0 \<and> cc d < cc c then d # order_insert cc c ds else c # d # ds)"

definition canonical_order :: "(code_point \<Rightarrow> nat) \<Rightarrow> code_point list \<Rightarrow> code_point list" where
  "canonical_order cc s = foldr (order_insert cc) s []"

text \<open>Normalization form D: full decomposition, then canonical ordering.\<close>

definition nfd_points :: "unicode_data \<Rightarrow> code_point list \<Rightarrow> code_point list" where
  "nfd_points D cs = canonical_order (combining_class D) (concat (map (decomposition D) cs))"

text \<open>Lower case: every code point is replaced by its mapping in its context.\<close>

fun lower_points :: "unicode_data \<Rightarrow> code_point list \<Rightarrow> code_point list \<Rightarrow> code_point list" where
  "lower_points D before [] = []"
| "lower_points D before (c # after) =
     lower_case D before c after @ lower_points D (c # before) after"

text \<open>
  The platform of a database, with a collation for \<^verbatim>\<open>localeCompare\<close>: both
  operations read the string as code points and write code units.
\<close>

definition unicode_platform :: "unicode_data \<Rightarrow> (ustring \<Rightarrow> ustring \<Rightarrow> int) \<Rightarrow> platform" where
  "unicode_platform D collation =
     \<lparr> nfd = (\<lambda>s. code_units (nfd_points D (code_points s))),
       toLowerCase = (\<lambda>s. code_units (lower_points D [] (code_points s))),
       localeCompare = collation \<rparr>"

section \<open>A platform for evaluation\<close>

text \<open>
  For evaluating the library on concrete strings the three operations are given for a
  fragment of Unicode: the code points U+0000 to U+00FF (Basic Latin and Latin-1
  Supplement), the combining diacritical marks U+0300 to U+036F and the Hebrew points
  U+05B0 to U+05B9. On strings of these code points \<open>nfd_fragment\<close> and
  \<open>lower_fragment\<close> are what the Unicode Character Database prescribes. The
  fragment platform is used on such strings only, to evaluate the functions of the
  library on examples; outside the fragment its tables are empty, and it is not the
  platform of the library there.

  \<open>canonical_decomposition\<close> lists the code points of the fragment that have a canonical
  decomposition, each with its full decomposition.
\<close>

definition canonical_decomposition :: "(code_unit \<times> ustring) list" where
  "canonical_decomposition =
   [(0xC0, [0x41, 0x300]), (0xC1, [0x41, 0x301]), (0xC2, [0x41, 0x302]), (0xC3, [0x41, 0x303]),
    (0xC4, [0x41, 0x308]), (0xC5, [0x41, 0x30A]), (0xC7, [0x43, 0x327]),
    (0xC8, [0x45, 0x300]), (0xC9, [0x45, 0x301]), (0xCA, [0x45, 0x302]), (0xCB, [0x45, 0x308]),
    (0xCC, [0x49, 0x300]), (0xCD, [0x49, 0x301]), (0xCE, [0x49, 0x302]), (0xCF, [0x49, 0x308]),
    (0xD1, [0x4E, 0x303]),
    (0xD2, [0x4F, 0x300]), (0xD3, [0x4F, 0x301]), (0xD4, [0x4F, 0x302]), (0xD5, [0x4F, 0x303]),
    (0xD6, [0x4F, 0x308]),
    (0xD9, [0x55, 0x300]), (0xDA, [0x55, 0x301]), (0xDB, [0x55, 0x302]), (0xDC, [0x55, 0x308]),
    (0xDD, [0x59, 0x301]),
    (0xE0, [0x61, 0x300]), (0xE1, [0x61, 0x301]), (0xE2, [0x61, 0x302]), (0xE3, [0x61, 0x303]),
    (0xE4, [0x61, 0x308]), (0xE5, [0x61, 0x30A]), (0xE7, [0x63, 0x327]),
    (0xE8, [0x65, 0x300]), (0xE9, [0x65, 0x301]), (0xEA, [0x65, 0x302]), (0xEB, [0x65, 0x308]),
    (0xEC, [0x69, 0x300]), (0xED, [0x69, 0x301]), (0xEE, [0x69, 0x302]), (0xEF, [0x69, 0x308]),
    (0xF1, [0x6E, 0x303]),
    (0xF2, [0x6F, 0x300]), (0xF3, [0x6F, 0x301]), (0xF4, [0x6F, 0x302]), (0xF5, [0x6F, 0x303]),
    (0xF6, [0x6F, 0x308]),
    (0xF9, [0x75, 0x300]), (0xFA, [0x75, 0x301]), (0xFB, [0x75, 0x302]), (0xFC, [0x75, 0x308]),
    (0xFD, [0x79, 0x301]), (0xFF, [0x79, 0x308]),
    (0x340, [0x300]), (0x341, [0x301]), (0x343, [0x313]), (0x344, [0x308, 0x301])]"

definition decompose :: "code_unit \<Rightarrow> ustring" where
  "decompose c = (case map_of canonical_decomposition c of Some d \<Rightarrow> d | None \<Rightarrow> [c])"

text \<open>
  The canonical combining class of a code point of the fragment, as ranges
  \<open>(lo, hi, class)\<close>: the combining diacritical marks below and above U+034F, and
  the Hebrew points. Every other code point of the fragment has class 0, and so has
  U+034F, the combining grapheme joiner.
\<close>

definition marks_below_joiner :: "(code_unit \<times> code_unit \<times> nat) list" where
  "marks_below_joiner =
   [(0x300, 0x314, 230), (0x315, 0x315, 232), (0x316, 0x319, 220), (0x31A, 0x31A, 232),
    (0x31B, 0x31B, 216), (0x31C, 0x320, 220), (0x321, 0x322, 202), (0x323, 0x326, 220),
    (0x327, 0x328, 202), (0x329, 0x333, 220), (0x334, 0x338, 1), (0x339, 0x33C, 220),
    (0x33D, 0x344, 230), (0x345, 0x345, 240), (0x346, 0x346, 230), (0x347, 0x349, 220),
    (0x34A, 0x34C, 230), (0x34D, 0x34E, 220)]"

definition marks_above_joiner :: "(code_unit \<times> code_unit \<times> nat) list" where
  "marks_above_joiner =
   [(0x350, 0x352, 230), (0x353, 0x356, 220), (0x357, 0x357, 230), (0x358, 0x358, 232),
    (0x359, 0x35A, 220), (0x35B, 0x35B, 230), (0x35C, 0x35C, 233), (0x35D, 0x35E, 234),
    (0x35F, 0x35F, 233), (0x360, 0x361, 234), (0x362, 0x362, 233), (0x363, 0x36F, 230)]"

definition hebrew_points :: "(code_unit \<times> code_unit \<times> nat) list" where
  "hebrew_points =
   [(0x5B0, 0x5B0, 10), (0x5B1, 0x5B1, 11), (0x5B2, 0x5B2, 12), (0x5B3, 0x5B3, 13),
    (0x5B4, 0x5B4, 14), (0x5B5, 0x5B5, 15), (0x5B6, 0x5B6, 16), (0x5B7, 0x5B7, 17),
    (0x5B8, 0x5B8, 18), (0x5B9, 0x5B9, 19)]"

definition combining_classes :: "(code_unit \<times> code_unit \<times> nat) list" where
  "combining_classes = marks_below_joiner @ marks_above_joiner @ hebrew_points"

definition ccc :: "code_unit \<Rightarrow> nat" where
  "ccc c =
     (case find (\<lambda>(lo, hi, k). lo \<le> c \<and> c \<le> hi) combining_classes of
        Some (lo, hi, k) \<Rightarrow> k
      | None \<Rightarrow> 0)"

text \<open>
  Normalization form D on the fragment. A string of the fragment has no surrogates, so
  its code units are its code points.
\<close>

definition nfd_fragment :: "ustring \<Rightarrow> ustring" where
  "nfd_fragment s = canonical_order ccc (concat (map decompose s))"

text \<open>
  Lower case in the fragment: the letters A to Z and U+00C0 to U+00DE, the
  multiplication sign U+00D7 apart, are 32 below their lower-case letters; no other code
  point of the fragment changes.
\<close>

definition lower_unit :: "code_unit \<Rightarrow> code_unit" where
  "lower_unit c =
     (if (0x41 \<le> c \<and> c \<le> 0x5A) \<or> (0xC0 \<le> c \<and> c \<le> 0xDE \<and> c \<noteq> 0xD7) then c + 32 else c)"

definition lower_fragment :: "ustring \<Rightarrow> ustring" where
  "lower_fragment s = map lower_unit s"

text \<open>
  The comparison of the fragment platform orders strings by their code units. It agrees
  with the collation of \<^verbatim>\<open>localeCompare\<close> on strings of lower-case letters a to z,
  and is used for evaluation only.
\<close>

fun compare_units :: "ustring \<Rightarrow> ustring \<Rightarrow> int" where
  "compare_units [] [] = 0"
| "compare_units [] (y # ys) = - 1"
| "compare_units (x # xs) [] = 1"
| "compare_units (x # xs) (y # ys) =
     (if x < y then - 1 else if y < x then 1 else compare_units xs ys)"

definition fragment :: platform where
  "fragment = \<lparr> nfd = nfd_fragment, toLowerCase = lower_fragment, localeCompare = compare_units \<rparr>"

text \<open>
  The same tables as a database, for the platform that works on code points. The
  database has one code point more, U+2F800, a compatibility ideograph whose canonical
  decomposition is U+4E3D; it is exact on the code points of the fragment, on U+2F800
  and U+4E3D, and on the surrogates, which have no decomposition, class 0 and no case.
\<close>

definition fragment_data :: unicode_data where
  "fragment_data =
     \<lparr> decomposition = (\<lambda>c. if c = 0x2F800 then [0x4E3D] else decompose c),
       combining_class = ccc,
       lower_case = (\<lambda>before c after. [lower_unit c]) \<rparr>"

section \<open>Statements of the specification\<close>

text \<open>
  The grammar of an escape sequence as the specification words it: ESC, an opening
  bracket, parameter bytes \<open>0x30\<close> to \<open>0x3F\<close>, intermediate bytes \<open>0x20\<close> to
  \<open>0x2F\<close> and one final byte \<open>0x40\<close> to \<open>0x7E\<close>.
\<close>

definition spec_parameter :: "code_unit \<Rightarrow> bool" where
  "spec_parameter c \<longleftrightarrow> 0x30 \<le> c \<and> c \<le> 0x3F"

definition spec_escape_sequence :: "ustring \<Rightarrow> bool" where
  "spec_escape_sequence e =
     (case e of
        a # b # body \<Rightarrow>
          a = 0x1B \<and> b = 0x5B \<and>
          (case dropWhile is_intermediate (dropWhile spec_parameter body) of
             [f] \<Rightarrow> is_final f
           | _ \<Rightarrow> False)
      | _ \<Rightarrow> False)"

text \<open>A heap with one array, for evaluation.\<close>

definition example_heap :: heap where
  "example_heap =
     \<lparr>arrays = (\<lambda>r. [])(0 := [lit ''delta'', lit ''Charlie'', lit ''alpha'']), next_ref = 1\<rparr>"

definition sorted_heap :: heap where
  "sorted_heap =
     example_heap\<lparr>arrays := (arrays example_heap)(1 := [lit ''alpha'', lit ''Charlie'', lit ''delta'']),
                  next_ref := 2\<rparr>"

text \<open>
  The string of a cell, \<open>cell_text\<close> where the conversion throws nothing, and the
  visual length of a string as the specification words it: the escape-stripped length,
  all other characters counting by code point.
\<close>

definition cell_string :: "row \<Rightarrow> ustring \<Rightarrow> ustring" where
  "cell_string r header = (case cell_text r header of Inl e \<Rightarrow> [] | Inr str \<Rightarrow> str)"



text \<open>
  Strict normalization as the specification words it: of the base canonicalization,
  keep the letters, the digits and the spaces, then remove the spaces. \<open>latin1_letter\<close>
  is the general category Letter on the code points up to U+00FF.
\<close>

definition latin1_letter :: "code_unit \<Rightarrow> bool" where
  "latin1_letter c \<longleftrightarrow>
     (0x41 \<le> c \<and> c \<le> 0x5A) \<or> (0x61 \<le> c \<and> c \<le> 0x7A) \<or> c = 0xAA \<or> c = 0xB5 \<or> c = 0xBA \<or>
     (0xC0 \<le> c \<and> c \<le> 0xD6) \<or> (0xD8 \<le> c \<and> c \<le> 0xF6) \<or> (0xF8 \<le> c \<and> c \<le> 0xFF)"

definition spec_normalize_strict :: "platform \<Rightarrow> ustring \<Rightarrow> ustring" where
  "spec_normalize_strict P s =
     filter (\<lambda>c. c \<noteq> 32)
       (filter (\<lambda>c. latin1_letter c \<or> (0x30 \<le> c \<and> c \<le> 0x39) \<or> c = 32)
          (normalize P s False False))"

section \<open>Vocabulary of the theorems\<close>

text \<open>
  The cells that \<open>table\<close> refuses. A cell is \<open>absent\<close> when the record has no
  property of that name, own or inherited; it is inconsistent when it is absent or
  falsy or when its string fails \<open>validate\<close>. \<open>converts\<close> says that converting the
  cell to a string throws nothing.
\<close>

definition absent :: "row \<Rightarrow> ustring \<Rightarrow> bool" where
  "absent r header \<longleftrightarrow> map_of (own r) header = None \<and> map_of (inherited r) header = None"

definition converts :: "row \<Rightarrow> ustring \<Rightarrow> bool" where
  "converts r header \<longleftrightarrow> \<not> isl (cell_text r header)"

definition inconsistent_cell :: "platform \<Rightarrow> row \<Rightarrow> ustring \<Rightarrow> bool" where
  "inconsistent_cell P r header \<longleftrightarrow>
     absent r header \<or> \<not> truthy (get_property r header)
     \<or> \<not> validate P (Str (cell_string r header))"

text \<open>
  The flattened key/value pairs of a record: its own keys and the strings of their
  values, one after the other, with commas between them. A value that is
  \<^verbatim>\<open>undefined\<close> or \<^verbatim>\<open>null\<close> is written as the empty string. \<open>error_text\<close> is
  the string that \<open>table\<close> returns for a row that it refuses.
\<close>

definition value_text :: "jsvalue \<Rightarrow> ustring" where
  "value_text v =
     (if v = JUndefined \<or> v = JNull then []
      else case ToString v of Inl e \<Rightarrow> [] | Inr text \<Rightarrow> text)"

definition flattened :: "row \<Rightarrow> ustring" where
  "flattened r = join (lit '','') (concat (map (\<lambda>(k, v). [k, value_text v]) (own r)))"

definition error_text :: "row \<Rightarrow> ustring" where
  "error_text r = lit ''Error: Unable to represent data. Row '' @ flattened r
                  @ lit '' is not consistent with the rest of the table.''"

text \<open>A record without the own properties that are no columns of the table.\<close>

definition only_columns :: "ustring list \<Rightarrow> row \<Rightarrow> row" where
  "only_columns headers r = r\<lparr>own := filter (\<lambda>(k, v). k \<in> set headers) (own r)\<rparr>"

text \<open>The code units that strict normalization keeps.\<close>

definition is_ascii_alphanumeric :: "code_unit \<Rightarrow> bool" where
  "is_ascii_alphanumeric c \<longleftrightarrow>
     (0x41 \<le> c \<and> c \<le> 0x5A) \<or> (0x61 \<le> c \<and> c \<le> 0x7A) \<or> (0x30 \<le> c \<and> c \<le> 0x39)"

text \<open>
  A code point is \<open>settled\<close> when the first two steps of \<open>normalize\<close> leave it alone:
  it has no canonical decomposition and is no combining diacritical mark. A string is
  \<open>canonically_ordered\<close> when no code point of non-zero combining class follows one
  of greater class. \<open>covers rs lo hi\<close> says that the ranges \<open>rs\<close>, one after the
  other, make up the interval from \<open>lo\<close> to \<open>hi\<close>, each with a non-zero class.
\<close>

definition settled :: "unicode_data \<Rightarrow> code_point \<Rightarrow> bool" where
  "settled D c \<longleftrightarrow> decomposition D c = [c] \<and> \<not> is_diacritic c"

fun canonically_ordered :: "(code_point \<Rightarrow> nat) \<Rightarrow> code_point list \<Rightarrow> bool" where
  "canonically_ordered cc [] = True"
| "canonically_ordered cc [a] = True"
| "canonically_ordered cc (a # b # s) =
     (\<not> (cc b \<noteq> 0 \<and> cc b < cc a) \<and> canonically_ordered cc (b # s))"

fun covers :: "(code_unit \<times> code_unit \<times> nat) list \<Rightarrow> code_unit \<Rightarrow> code_unit \<Rightarrow> bool" where
  "covers [] lo hi = (hi < lo)"
| "covers ((l, h, k) # rs) lo hi = (l = lo \<and> l \<le> h \<and> k \<noteq> 0 \<and> covers rs (h + 1) hi)"

text \<open>
  Well-formed UTF-16: no surrogate is left unpaired, so that every code point of the
  string is a scalar value.
\<close>

definition scalar :: "code_point \<Rightarrow> bool" where
  "scalar c \<longleftrightarrow> c < 0x110000 \<and> \<not> (0xD800 \<le> c \<and> c \<le> 0xDFFF)"

definition well_formed :: "ustring \<Rightarrow> bool" where
  "well_formed s \<longleftrightarrow> list_all scalar (code_points s)"

text \<open>A class of code units without surrogates, like the white space and the marks.\<close>

definition plain_class :: "(code_unit \<Rightarrow> bool) \<Rightarrow> bool" where
  "plain_class p \<longleftrightarrow> (\<forall>u. p u \<longrightarrow> u < 0x10000 \<and> \<not> is_high_surrogate u \<and> \<not> is_low_surrogate u)"

text \<open>
  Properties of the Unicode Character Database that the idempotence of \<open>normalize\<close>
  rests on. Of the decompositions: a scalar value decomposes into scalar values; a full
  decomposition does not decompose further; U+034F, the combining grapheme joiner,
  occurs in no decomposition; every other combining diacritical mark U+0300 to U+036F
  has a non-zero combining class; the space has no decomposition and class 0.
\<close>

definition decomposition_laws :: "unicode_data \<Rightarrow> bool" where
  "decomposition_laws D \<longleftrightarrow>
     (\<forall>c. scalar c \<longrightarrow> list_all scalar (decomposition D c)) \<and>
     (\<forall>c. \<forall>d\<in>set (decomposition D c). decomposition D d = [d]) \<and>
     (\<forall>c. c \<noteq> 0x34F \<longrightarrow> 0x34F \<notin> set (decomposition D c)) \<and>
     (\<forall>c. is_diacritic c \<and> c \<noteq> 0x34F \<longrightarrow> combining_class D c \<noteq> 0) \<and>
     decomposition D 32 = [32] \<and> combining_class D 32 = 0"

text \<open>
  Of the lower-case mapping: a settled code point has, in every context, one code point
  as its lower case, which is settled again, a scalar value if the code point is one,
  of the same combining class, white space exactly if the code point is, and its own
  lower case in every context; the lower case of the space is the space.
\<close>

definition lowered :: "unicode_data \<Rightarrow> code_point \<Rightarrow> code_point \<Rightarrow> bool" where
  "lowered D c d \<longleftrightarrow>
     settled D d \<and> (scalar c \<longrightarrow> scalar d) \<and>
     combining_class D d = combining_class D c \<and>
     (is_space d \<longleftrightarrow> is_space c) \<and>
     (\<forall>before after. lower_case D before d after = [d])"

definition lower_case_laws :: "unicode_data \<Rightarrow> bool" where
  "lower_case_laws D \<longleftrightarrow>
     (\<forall>before c after. settled D c \<longrightarrow>
        (\<exists>d. lower_case D before c after = [d] \<and> lowered D c d)) \<and>
     (\<forall>before after. lower_case D before 32 after = [32])"

text \<open>
  The fixed points of the two white-space steps: every white space of a \<open>collapsed\<close>
  string is a single space between two other characters or at an end, and a
  \<open>trimmed\<close> string neither starts nor ends with white space.
\<close>

fun collapsed :: "ustring \<Rightarrow> bool" where
  "collapsed [] = True"
| "collapsed [c] = (is_space c \<longrightarrow> c = 32)"
| "collapsed (c # d # ds) = ((is_space c \<longrightarrow> c = 32 \<and> \<not> is_space d) \<and> collapsed (d # ds))"

definition trimmed :: "ustring \<Rightarrow> bool" where
  "trimmed s \<longleftrightarrow> s = [] \<or> (\<not> is_space (hd s) \<and> \<not> is_space (last s))"

text \<open>
  Inputs for evaluation. \<open>Integer i\<close> is the number that the integer literal \<open>i\<close>
  denotes, for an integer of absolute value up to \<open>2\<^sup>5\<^sup>3\<close>: its digits without the
  zeros at the end, and the decimal point after all its digits. Then the records of
  the tests, records for the claims about \<open>table\<close>, and strings for \<open>normalize\<close>:
  one with an accent, two Hebrew points out of canonical order and the two surrogates
  of U+2F800, one with the combining grapheme joiner between the two points, and one
  with a combining mark between the two surrogates.
\<close>

definition Integer :: "int \<Rightarrow> number" where
  "Integer i =
     (if i = 0 then Zero False
      else Decimal (i < 0) (rev (dropWhile (\<lambda>d. d = 48) (rev (digits (nat \<bar>i\<bar>)))))
             (int (length (digits (nat \<bar>i\<bar>)))))"

definition test_records :: "row list" where
  "test_records =
     [object_literal [(lit ''Name'', JString (lit ''Zaka'')), (lit ''Age'', JNumber (Integer 50)),
                      (lit ''Country'', JString (lit ''Spain''))],
      object_literal [(lit ''Name'', JString (lit ''Someone'')), (lit ''Age'', JNumber (Integer 25)),
                      (lit ''Country'', JString (lit ''Poland''))]]"

definition inconsistent_example :: "row list" where
  "inconsistent_example =
     [object_literal [(lit ''Key'', JString (lit ''Value'')), (lit ''Key2'', JString (lit ''Value 2''))],
      object_literal [(lit ''Key'', JString (lit ''Value3'')), (lit ''Key2'', JString (lit ''Value4''))],
      object_literal [(lit ''Key'', JString (lit ''Value5'')), (lit ''Key3'', JString (lit ''Value6''))]]"

definition record_A :: row where
  "record_A = object_literal [(lit ''A'', JString (lit ''x''))]"

definition record_AB :: row where
  "record_AB = object_literal [(lit ''A'', JString (lit ''y'')), (lit ''B'', JString [])]"

definition record_constructor :: row where
  "record_constructor = object_literal [(lit ''constructor'', JString (lit ''x''))]"

definition record_a :: row where
  "record_a = object_literal [(lit ''a'', JString (lit ''y''))]"

definition record_symbol :: row where
  "record_symbol = object_literal [(lit ''A'', JArray [JSymbol []])]"

definition record_empty :: row where
  "record_empty = object_literal [(lit ''A'', JString [])]"

definition width_example :: "row list" where
  "width_example = [object_literal [(lit ''N'', JString (lit ''a  b''))]]"

definition strict_example :: ustring where
  "strict_example = lit ''  123_mY    fAnT'' @ [0xC1] @ lit ''sTiC  ''"

definition marked_example :: ustring where
  "marked_example = lit ''  A'' @ [0x301, 0x5B7, 0x5B4] @ lit ''   B'' @ [0xD87E, 0xDC00] @ lit '' ''"

definition joiner_example :: ustring where
  "joiner_example = [0x5B7, 0x34F, 0x5B4]"

definition surrogate_example :: ustring where
  "surrogate_example = [0xD87E, 0x301, 0xDC00]"

section \<open>Evaluation on the fragment\<close>

lemma decomposition_keys_high: "list_all (\<lambda>(k, d). 0xC0 \<le> k) canonical_decomposition"
  by (simp add: canonical_decomposition_def)

lemma decompose_low: "c < 0xC0 \<Longrightarrow> decompose c = [c]"
proof -
  assume c: "c < 0xC0"
  have "map_of canonical_decomposition c = None"
  proof (cases "map_of canonical_decomposition c")
    case (Some d)
    then have "(c, d) \<in> set canonical_decomposition" by (rule map_of_SomeD)
    with decomposition_keys_high have "0xC0 \<le> c" by (auto simp: list_all_iff)
    with c show ?thesis by simp
  qed simp
  then show ?thesis by (simp add: decompose_def)
qed

lemmas class_tables = combining_classes_def marks_below_joiner_def marks_above_joiner_def
  hebrew_points_def

lemma ccc_low: "c < 0x300 \<Longrightarrow> ccc c = 0"
  by (simp add: ccc_def class_tables)

lemma ccc_high: "0x5B9 < c \<Longrightarrow> ccc c = 0"
  by (simp add: ccc_def class_tables)

lemma ccc_values:
  "ccc 0x301 = 230" "ccc 0x308 = 230" "ccc 0x34F = 0" "ccc 0x5B4 = 14" "ccc 0x5B7 = 17"
  by (simp_all add: ccc_def class_tables)

lemma decompose_values:
  "decompose 0xC1 = [0x41, 0x301]" "decompose 0xC9 = [0x45, 0x301]"
  "decompose 0xF6 = [0x6F, 0x308]" "decompose 0xDF = [0xDF]"
  "decompose 0x301 = [0x301]" "decompose 0x308 = [0x308]" "decompose 0x34F = [0x34F]"
  "decompose 0x5B4 = [0x5B4]" "decompose 0x5B7 = [0x5B7]"
  by (simp_all add: decompose_def canonical_decomposition_def)

lemma replicate_numeral: "replicate (numeral k) x = x # replicate (pred_numeral k) x"
  by (simp add: numeral_eq_Suc)

lemma order_insert_starter: "cc c = 0 \<Longrightarrow> order_insert cc c ds = c # ds"
  by (cases ds) simp_all

lemma canonical_order_starters: "\<forall>c\<in>set s. cc c = 0 \<Longrightarrow> canonical_order cc s = s"
  by (induction s) (simp_all add: canonical_order_def order_insert_starter)

lemma nfd_fragment_low: "list_all (\<lambda>c. c < 0xC0) s \<Longrightarrow> nfd_fragment s = s"
proof -
  assume a: "list_all (\<lambda>c. c < 0xC0) s"
  then have "concat (map decompose s) = s"
    by (induction s) (simp_all add: decompose_low)
  moreover have "\<forall>c\<in>set s. ccc c = 0"
  proof
    fix c assume "c \<in> set s"
    with a have "c < 0xC0" by (simp add: list_all_iff)
    then have "c < 0x300" by simp
    then show "ccc c = 0" by (rule ccc_low)
  qed
  ultimately show ?thesis by (simp add: nfd_fragment_def canonical_order_starters)
qed

text \<open>
  Two sets of equations for evaluation: \<open>normalize_eval\<close> for strings below U+00C0, which
  decomposition leaves as they are, and \<open>normalize_marked\<close> for strings with the marked
  code points of \<open>decompose_values\<close> and \<open>ccc_values\<close>.
\<close>

lemmas normalize_eval = normalize_def fragment_def lower_fragment_def lower_unit_def
  trim_def trimStart_def trimEnd_def is_space_def remove_accentuation_def is_diacritic_def
  strict_removed_def is_word_def lit_def nfd_fragment_low

lemmas normalize_marked = normalize_def fragment_def lower_fragment_def lower_unit_def
  trim_def trimStart_def trimEnd_def is_space_def remove_accentuation_def is_diacritic_def
  lit_def nfd_fragment_def canonical_order_def decompose_low decompose_values ccc_low ccc_values

lemmas escape_eval = match_escape_def is_parameter_def is_intermediate_def is_final_def

lemma try_map_Nil: "try_map f [] = Inr []"
  by (simp add: try_map_def)

lemma try_map_Cons:
  "try_map f (x # xs) =
     (case f x of
        Inl e \<Rightarrow> Inl e
      | Inr y \<Rightarrow> (case try_map f xs of Inl e \<Rightarrow> Inl e | Inr ys \<Rightarrow> Inr (y # ys)))"
  by (simp add: try_map_def split: sum.split)

lemmas value_eval = and_then_def try_map_Nil try_map_Cons get_property_def object_literal_def
  Object_prototype_def native_function_def cell_text_def Object_keys_def entries_toString_def
  Integer_def decimal_text_def digits.simps replicate_numeral lit_def

lemmas table_eval = table_def Let_def columnWidths_def Math_max_def format_row_def
  format_cell_def enumerate_headers_def fmtCell_def padEnd_def createSeparator_def repeat_def
  inconsistent_row_def chars_y_def chars_x_def chars_full_def chars_xDown_def chars_xUp_def
  chars_yLeft_def chars_yRight_def chars_xlUp_def chars_xlDown_def chars_xrUp_def
  chars_xrDown_def value_eval

lemma Number_toString_values:
  "Number_toString (Integer 50) = lit ''50''"
  "Number_toString (Integer (- 1200)) = lit ''-1200''"
  "Number_toString (Decimal False (lit ''18446744073709552'') 20) = lit ''18446744073709552000''"
  "Number_toString (Decimal False (lit ''1'') 22) = lit ''1e+21''"
  "Number_toString (Decimal False (lit ''15'') 1) = lit ''1.5''"
  "Number_toString (Decimal False (lit ''1'') (- 6)) = lit ''1e-7''"
  by (simp_all add: value_eval)

section \<open>The tests of the repository\<close>

text \<open>
  The model, on the fragment platform, gives what the tests of the repository expect of
  the functions it embeds.
\<close>

lemma test_normalize:
  "normalize fragment (lit ''              heLLo mY    fAnT'' @ [0xC1] @ lit ''sTiC    AmigO   '') False False
     = lit ''hello my fantastic amigo''"
  "normalize fragment (lit ''              123_heLLo mY    fAnT'' @ [0xC1] @ lit ''sTiC    AmigO   '') True False
     = lit ''123hellomyfantasticamigo''"
  by (simp_all add: normalize_marked strict_removed_def is_word_def)

lemma test_stripCliColors:
  "stripCliColors (0x1B # lit ''[31mRed text'' @ 0x1B # lit ''[0m'') = lit ''Red text''"
  "stripCliColors (0x1B # lit ''[2J'' @ 0x1B # lit ''[HClear screen and move cursor'')
     = lit ''Clear screen and move cursor''"
  "stripCliColors (0x1B # lit ''[38;5;82m256-color text'' @ 0x1B # lit ''[0m'') = lit ''256-color text''"
  by (simp_all add: lit_def escape_eval)

lemma test_validate:
  "validate fragment (Str (lit ''valid''))" "\<not> validate fragment (Str [])"
  "\<not> validate fragment Undefined"
  by (simp_all add: normalize_eval)

lemma test_normalizeArray:
  "normalizeArray fragment
     [Str [], Str [], Str (lit ''   h'' @ [0xC9] @ lit ''lLo    ''), Str [],
      Str (lit ''w'' @ [0xF6] @ lit ''Rld''), Str (lit ''  123_abc ''), Str []]
   = [lit ''hello'', lit ''world'', lit ''123_abc'']"
  by (simp add: normalizeArray_def normalize_marked)

lemma test_sortAlphabetically:
  "sortAlphabetically fragment
     \<lparr>arrays = (\<lambda>r. [])(0 := [lit ''delta'', lit ''charlie'', lit ''alpha'', lit ''zulu'', lit ''bravo'']),
      next_ref = 1\<rparr> 0
   = (\<lparr>arrays = (\<lambda>r. [])(0 := [lit ''delta'', lit ''charlie'', lit ''alpha'', lit ''zulu'', lit ''bravo''],
                        1 := [lit ''alpha'', lit ''bravo'', lit ''charlie'', lit ''delta'', lit ''zulu'']),
       next_ref = 2\<rparr>, 1)"
  by (simp add: sortAlphabetically_def compareFn_def toSorted_def alloc_def sort_with_def normalize_eval)

lemma test_table:
  "table fragment test_records =
   Inr (join [10]
     [0x250C # repeat [0x2500] 10 @ 0x252C # repeat [0x2500] 5 @ 0x252C # repeat [0x2500] 9 @ [0x2510],
      0x2502 # lit '' Name     '' @ 0x2502 # lit '' Age '' @ 0x2502 # lit '' Country '' @ [0x2502],
      0x251C # repeat [0x2500] 10 @ 0x253C # repeat [0x2500] 5 @ 0x253C # repeat [0x2500] 9 @ [0x2524],
      0x2502 # lit '' Zaka     '' @ 0x2502 # lit '' 50  '' @ 0x2502 # lit '' Spain   '' @ [0x2502],
      0x2502 # lit '' Someone  '' @ 0x2502 # lit '' 25  '' @ 0x2502 # lit '' Poland  '' @ [0x2502],
      0x2514 # repeat [0x2500] 10 @ 0x2534 # repeat [0x2500] 5 @ 0x2534 # repeat [0x2500] 9 @ [0x2518]])"
  "table fragment inconsistent_example =
   Inr (lit ''Error: Unable to represent data. Row Key,Value5,Key3,Value6 is not consistent with the rest of the table.'')"
  by (simp_all add: test_records_def inconsistent_example_def table_eval normalize_eval escape_eval)

section \<open>validate and the array normalizer\<close>

text \<open>
  Claim C5. \<open>validate\<close> is true exactly of a string whose normalization, with both
  flags off, is not empty: it is false of \<^verbatim>\<open>undefined\<close> and \<^verbatim>\<open>null\<close> (and
  of a value that is no string), whatever the platform; on the fragment platform it is
  false of the empty string and of three spaces and true of \<^verbatim>\<open>"x"\<close>.
\<close>

theorem validate_spec:
  "(validate P v \<longleftrightarrow> (\<exists>str. v = Str str \<and> normalize P str False False \<noteq> []))
   \<and> \<not> validate P Undefined \<and> \<not> validate P Null
   \<and> \<not> validate fragment (Str []) \<and> \<not> validate fragment (Str (lit ''   ''))
   \<and> validate fragment (Str (lit ''x''))"
proof -
  have "validate P v \<longleftrightarrow> (\<exists>str. v = Str str \<and> normalize P str False False \<noteq> [])"
    by (cases v) simp_all
  moreover have "normalize fragment [] False False = []"
    by (simp add: normalize_eval)
  moreover have "normalize fragment (lit ''   '') False False = []"
    by (simp add: normalize_eval)
  moreover have "normalize fragment (lit ''x'') False False = lit ''x''"
    by (simp add: normalize_eval)
  ultimately show ?thesis by (simp add: lit_def)
qed

text \<open>
  Claim C10. Every element of the array that \<open>normalizeArray\<close> returns is a non-empty
  string: an element is the normalization of an entry that passed \<open>validate\<close>, and
  \<open>validate\<close> has checked that this very normalization is not empty.
\<close>

theorem normalizeArray_nonempty:
  "\<forall>s\<in>set (normalizeArray P strArr). s \<noteq> []"
proof
  fix s assume "s \<in> set (normalizeArray P strArr)"
  then obtain v where v: "validate P v" and s: "s = normalize P (the_string v) False False"
    by (auto simp: normalizeArray_def)
  from v obtain str where "v = Str str" by (cases v) simp_all
  with v s show "s \<noteq> []" by (simp split: if_splits)
qed

theorem normalizeArray_nonempty_witness:
  "normalizeArray fragment
     [Str (lit ''    hIi ''), Str [], Undefined, Str (lit '' yes! ''), Null, Str (lit ''  '')]
     = [lit ''hii'', lit ''yes!'']
   \<and> lit ''hii'' \<noteq> [] \<and> lit ''yes!'' \<noteq> []"
proof -
  have "normalizeArray fragment
     [Str (lit ''    hIi ''), Str [], Undefined, Str (lit '' yes! ''), Null, Str (lit ''  '')]
     = [lit ''hii'', lit ''yes!'']"
    by (simp add: normalizeArray_def normalize_eval)
  with normalizeArray_nonempty [of fragment
     "[Str (lit ''    hIi ''), Str [], Undefined, Str (lit '' yes! ''), Null, Str (lit ''  '')]"]
  show ?thesis by simp
qed

section \<open>isAnagram\<close>

lemma sort_cong_mset: "mset xs = mset ys \<Longrightarrow> sort xs = sort (ys :: nat list)"
  by (metis properties_for_sort sorted_sort mset_sort)

text \<open>
  Claim C8. No string is an anagram of itself, and two strings that differ verbatim and
  whose lowercased, whitespace-stripped characters are the same up to their order
  (the same multiset) are anagrams of each other.
\<close>

theorem isAnagram_spec:
  "\<not> isAnagram P a a \<and>
   (mset (removeWhitespace (toLowerCase P a)) = mset (removeWhitespace (toLowerCase P b)) \<and> a \<noteq> b
      \<longrightarrow> isAnagram P a b)"
proof (intro conjI impI)
  show "\<not> isAnagram P a a" by (simp add: isAnagram_def)
next
  assume h: "mset (removeWhitespace (toLowerCase P a)) = mset (removeWhitespace (toLowerCase P b))
             \<and> a \<noteq> b"
  then have "sort (removeWhitespace (toLowerCase P a)) = sort (removeWhitespace (toLowerCase P b))"
    by (intro sort_cong_mset) simp
  with h show "isAnagram P a b" by (simp add: isAnagram_def)
qed

theorem isAnagram_spec_witness:
  "isAnagram fragment (lit ''Hi there'') (lit ''the RIH e'')
   \<and> \<not> isAnagram fragment (lit ''hi'') (lit ''hi'')"
proof -
  have "mset (removeWhitespace (toLowerCase fragment (lit ''Hi there'')))
        = mset (removeWhitespace (toLowerCase fragment (lit ''the RIH e'')))
        \<and> lit ''Hi there'' \<noteq> lit ''the RIH e''"
    by (simp add: fragment_def lower_fragment_def lower_unit_def removeWhitespace_def
        is_space_def lit_def)
  with isAnagram_spec [of fragment "lit ''Hi there''" "lit ''the RIH e''"]
    isAnagram_spec [of fragment "lit ''hi''" "lit ''hi''"]
  show ?thesis by blast
qed

section \<open>stripCliColors\<close>

lemma match_escape_complete:
  assumes ps: "list_all is_parameter ps" and ims: "list_all is_intermediate ims" and f: "is_final f"
  shows "match_escape ([0x1B, 0x5B] @ ps @ ims @ [f] @ rest) = Some rest"
proof -
  have nf: "\<not> is_parameter f" "\<not> is_intermediate f"
    using f by (auto simp: is_parameter_def is_intermediate_def is_final_def)
  have "dropWhile is_parameter (ps @ ims @ f # rest) = dropWhile is_parameter (ims @ f # rest)"
    using ps by (intro dropWhile_append2) (simp add: list_all_iff)
  also have "\<dots> = ims @ f # rest"
  proof (cases ims)
    case Nil
    with nf show ?thesis by simp
  next
    case (Cons i is')
    with ims have "\<not> is_parameter i"
      by (auto simp: is_parameter_def is_intermediate_def)
    with Cons show ?thesis by simp
  qed
  finally have 1: "dropWhile is_parameter (ps @ ims @ f # rest) = ims @ f # rest" .
  have "dropWhile is_intermediate (ims @ f # rest) = dropWhile is_intermediate (f # rest)"
    using ims by (intro dropWhile_append2) (simp add: list_all_iff)
  with nf have 2: "dropWhile is_intermediate (ims @ f # rest) = f # rest" by simp
  show ?thesis using f by (simp add: match_escape_def 1 2)
qed

lemma match_escape_sound:
  assumes "match_escape s = Some rest"
  shows "\<exists>ps ims f. s = [0x1B, 0x5B] @ ps @ ims @ [f] @ rest \<and>
           list_all is_parameter ps \<and> list_all is_intermediate ims \<and> is_final f"
proof -
  from assms obtain a b body where s: "s = a # b # body"
    by (cases s; cases "tl s") (auto simp: match_escape_def)
  from assms s have ab: "a = 0x1B" "b = 0x5B"
    by (auto simp: match_escape_def split: if_splits)
  from assms s obtain f where d: "dropWhile is_intermediate (dropWhile is_parameter body) = f # rest"
    and f: "is_final f"
    by (auto simp: match_escape_def split: if_splits list.splits)
  let ?ps = "takeWhile is_parameter body"
  let ?ims = "takeWhile is_intermediate (dropWhile is_parameter body)"
  have "body = ?ps @ dropWhile is_parameter body" by simp
  also have "dropWhile is_parameter body = ?ims @ f # rest"
    using d takeWhile_dropWhile_id [of is_intermediate "dropWhile is_parameter body"] by simp
  finally have "s = [0x1B, 0x5B] @ ?ps @ ?ims @ [f] @ rest"
    using s ab by simp
  moreover have "list_all is_parameter ?ps" "list_all is_intermediate ?ims"
    by (auto simp: list_all_iff dest: set_takeWhileD)
  ultimately show ?thesis using f by blast
qed

text \<open>
  Claim C6, as amended. \<open>stripCliColors\<close> removes exactly the substrings ESC,
  opening bracket, parameter bytes out of the digits, the semicolon and the question
  mark, intermediate bytes \<open>0x20\<close> to \<open>0x2F\<close>, one final byte \<open>0x40\<close> to
  \<open>0x7E\<close>, scanning from the left: where such a sequence starts it is dropped and the
  scan goes on behind it, and where none starts the code unit is kept. In particular
  the red \<^verbatim>\<open>Red\<close> of the specification is stripped to \<^verbatim>\<open>Red\<close>.
\<close>

theorem stripCliColors_spec:
  "stripCliColors [] = []
   \<and> (list_all is_parameter ps \<and> list_all is_intermediate ims \<and> is_final f
        \<longrightarrow> stripCliColors ([0x1B, 0x5B] @ ps @ ims @ [f] @ rest) = stripCliColors rest)
   \<and> ((\<forall>ps ims f rest. list_all is_parameter ps \<and> list_all is_intermediate ims \<and> is_final f
          \<longrightarrow> c # cs \<noteq> [0x1B, 0x5B] @ ps @ ims @ [f] @ rest)
        \<longrightarrow> stripCliColors (c # cs) = c # stripCliColors cs)
   \<and> stripCliColors ([0x1B] @ lit ''[31mRed'' @ [0x1B] @ lit ''[0m'') = lit ''Red''"
proof (intro conjI impI)
  show "stripCliColors [] = []" by simp
next
  assume "list_all is_parameter ps \<and> list_all is_intermediate ims \<and> is_final f"
  then have "match_escape ([0x1B, 0x5B] @ ps @ ims @ [f] @ rest) = Some rest"
    by (intro match_escape_complete) simp_all
  then have "match_escape (0x1B # 0x5B # ps @ ims @ f # rest) = Some rest" by simp
  then have "stripCliColors (0x1B # 0x5B # ps @ ims @ f # rest) = stripCliColors rest"
    by (simp only: stripCliColors.simps option.case)
  then show "stripCliColors ([0x1B, 0x5B] @ ps @ ims @ [f] @ rest) = stripCliColors rest" by simp
next
  assume h: "\<forall>ps ims f rest. list_all is_parameter ps \<and> list_all is_intermediate ims \<and> is_final f
          \<longrightarrow> c # cs \<noteq> [0x1B, 0x5B] @ ps @ ims @ [f] @ rest"
  have "match_escape (c # cs) = None"
  proof (cases "match_escape (c # cs)")
    case (Some rest)
    from match_escape_sound [OF this] h show ?thesis by blast
  qed simp
  then show "stripCliColors (c # cs) = c # stripCliColors cs" by simp
next
  show "stripCliColors ([0x1B] @ lit ''[31mRed'' @ [0x1B] @ lit ''[0m'') = lit ''Red''"
    by (simp add: lit_def escape_eval)
qed

theorem stripCliColors_spec_witness:
  "stripCliColors ([0x1B, 0x5B] @ lit ''38;5;82'' @ lit '' '' @ [0x6D] @ lit ''Red'') = stripCliColors (lit ''Red'')
   \<and> stripCliColors (0x52 # lit ''ed'') = 0x52 # stripCliColors (lit ''ed'')"
proof -
  have 1: "list_all is_parameter (lit ''38;5;82'') \<and> list_all is_intermediate (lit '' '') \<and> is_final 0x6D"
    by (simp add: lit_def is_parameter_def is_intermediate_def is_final_def)
  have 2: "\<forall>ps ims f rest. list_all is_parameter ps \<and> list_all is_intermediate ims \<and> is_final f
          \<longrightarrow> 0x52 # lit ''ed'' \<noteq> [0x1B, 0x5B] @ ps @ ims @ [f] @ rest"
    by simp
  from 1 2 stripCliColors_spec [of "lit ''38;5;82''" "lit '' ''" "0x6D" "lit ''Red''" "0x52" "lit ''ed''"]
  show ?thesis by blast
qed

text \<open>
  The claim as the specification states it, with every byte \<open>0x30\<close> to \<open>0x3F\<close> a
  parameter byte, fails: the colour sequence with colons as separators matches that
  grammar and is left in place, since the colon is no parameter byte of the source.
\<close>

theorem stripCliColors_counterexample:
  "spec_escape_sequence ([0x1B] @ lit ''[38:5:82m'')
   \<and> stripCliColors ([0x1B] @ lit ''[38:5:82m'' @ lit ''Hello'') = [0x1B] @ lit ''[38:5:82m'' @ lit ''Hello''"
  by (simp add: spec_escape_sequence_def spec_parameter_def lit_def match_escape_def
      is_parameter_def is_intermediate_def is_final_def)

section \<open>sortAlphabetically\<close>

lemma mset_insert_sorted: "mset (insert_sorted cmp x ys) = add_mset x (mset ys)"
  by (induction ys) simp_all

lemma mset_sort_with: "mset (sort_with cmp xs) = mset xs"
  by (induction xs) (simp_all add: sort_with_def mset_insert_sorted)

lemma set_insert_sorted: "set (insert_sorted cmp x ys) = insert x (set ys)"
  by (induction ys) auto

lemma sorted_insert_sorted:
  assumes c: "consistent_comparison cmp" and s: "sorted_wrt (\<lambda>a b. cmp a b \<le> 0) ys"
  shows "sorted_wrt (\<lambda>a b. cmp a b \<le> 0) (insert_sorted cmp x ys)"
  using s
proof (induction ys)
  case Nil
  show ?case by simp
next
  case (Cons y ys)
  show ?case
  proof (cases "cmp x y \<le> 0")
    case True
    have "cmp x z \<le> 0" if "z \<in> set ys" for z
    proof -
      from Cons.prems that have "cmp y z \<le> 0" by simp
      with True c show ?thesis unfolding consistent_comparison_def by blast
    qed
    with True Cons.prems show ?thesis by simp
  next
    case False
    with c have "cmp y x \<le> 0" unfolding consistent_comparison_def by blast
    with False Cons show ?thesis by (auto simp: set_insert_sorted)
  qed
qed

lemma sorted_sort_with:
  "consistent_comparison cmp \<Longrightarrow> sorted_wrt (\<lambda>a b. cmp a b \<le> 0) (sort_with cmp xs)"
  by (induction xs) (simp_all add: sort_with_def sorted_insert_sorted)

lemma consistent_compareFn:
  assumes "consistent_comparison (localeCompare P)"
  shows "consistent_comparison (compareFn P)"
  using assms unfolding consistent_comparison_def compareFn_def by blast

text \<open>
  Claim C9. \<open>sortAlphabetically\<close> leaves the array it is given as it was, and every
  other allocated array with it; the reference it returns is a new one, not allocated
  before the call, and the array behind it holds the elements of the input, sorted by
  the comparison of their normalizations whenever \<^verbatim>\<open>localeCompare\<close> is a
  consistent comparison.
\<close>

theorem sortAlphabetically_frame:
  assumes "strArr < next_ref h" and "sortAlphabetically P h strArr = (h', r)"
  shows "arrays h' strArr = arrays h strArr
    \<and> (\<forall>a<next_ref h. arrays h' a = arrays h a)
    \<and> r \<noteq> strArr \<and> \<not> r < next_ref h \<and> r < next_ref h'
    \<and> arrays h' r = sort_with (compareFn P) (arrays h strArr)
    \<and> mset (arrays h' r) = mset (arrays h strArr)
    \<and> (consistent_comparison (localeCompare P)
         \<longrightarrow> sorted_wrt (\<lambda>a b. compareFn P a b \<le> 0) (arrays h' r))"
proof -
  from assms(2) have "alloc h (sort_with (compareFn P) (arrays h strArr)) = (h', r)"
    by (simp add: sortAlphabetically_def toSorted_def)
  then have r: "r = next_ref h"
    and h': "h' = h\<lparr>arrays := (arrays h)(next_ref h := sort_with (compareFn P) (arrays h strArr)),
                    next_ref := Suc (next_ref h)\<rparr>"
    by (auto simp: alloc_def)
  from h' have new: "arrays h' (next_ref h) = sort_with (compareFn P) (arrays h strArr)"
    and old: "\<And>a. a < next_ref h \<Longrightarrow> arrays h' a = arrays h a"
    and nxt: "next_ref h' = Suc (next_ref h)"
    by simp_all
  have "consistent_comparison (localeCompare P)
         \<longrightarrow> sorted_wrt (\<lambda>a b. compareFn P a b \<le> 0) (arrays h' r)"
    unfolding r new by (intro impI sorted_sort_with consistent_compareFn)
  moreover have "mset (arrays h' r) = mset (arrays h strArr)"
    unfolding r new by (rule mset_sort_with)
  ultimately show ?thesis using assms(1) old nxt r new by simp
qed

lemma compare_units_total: "compare_units x y \<le> 0 \<or> compare_units y x \<le> 0"
  by (induction x y rule: compare_units.induct) simp_all

lemma compare_units_trans:
  "compare_units x y \<le> 0 \<Longrightarrow> compare_units y z \<le> 0 \<Longrightarrow> compare_units x z \<le> 0"
proof (induction x y arbitrary: z rule: compare_units.induct)
  case 1
  then show ?case by simp
next
  case (2 y ys)
  then show ?case by (cases z) simp_all
next
  case (3 x xs)
  then show ?case by simp
next
  case (4 x xs y ys)
  show ?case
  proof (cases z)
    case Nil
    with 4 show ?thesis by simp
  next
    case (Cons c cs)
    consider "x < y" | "x = y" | "y < x" by linarith
    then show ?thesis
    proof cases
      case 1
      with 4 Cons show ?thesis by (simp split: if_splits)
    next
      case 2
      with 4 Cons show ?thesis by (simp split: if_splits)
    next
      case 3
      with 4 Cons show ?thesis by (simp split: if_splits)
    qed
  qed
qed

lemma sort_example: "sortAlphabetically fragment example_heap 0 = (sorted_heap, 1)"
  by (simp add: sortAlphabetically_def compareFn_def toSorted_def alloc_def example_heap_def
      sorted_heap_def sort_with_def normalize_eval)

theorem sortAlphabetically_frame_witness:
  "sortAlphabetically fragment example_heap 0 = (sorted_heap, 1)
   \<and> arrays sorted_heap 0 = [lit ''delta'', lit ''Charlie'', lit ''alpha'']
   \<and> arrays sorted_heap 1 = [lit ''alpha'', lit ''Charlie'', lit ''delta'']
   \<and> \<not> 1 < next_ref example_heap
   \<and> sorted_wrt (\<lambda>a b. compareFn fragment a b \<le> 0) (arrays sorted_heap 1)"
proof -
  have l: "0 < next_ref example_heap" by (simp add: example_heap_def)
  have c: "consistent_comparison (localeCompare fragment)"
    unfolding consistent_comparison_def fragment_def
    using compare_units_total compare_units_trans by auto
  have a: "arrays example_heap 0 = [lit ''delta'', lit ''Charlie'', lit ''alpha'']"
    "arrays sorted_heap 1 = [lit ''alpha'', lit ''Charlie'', lit ''delta'']"
    by (simp_all add: example_heap_def sorted_heap_def)
  from sortAlphabetically_frame [OF l sort_example] c
  have "arrays sorted_heap 0 = arrays example_heap 0 \<and> \<not> 1 < next_ref example_heap
        \<and> sorted_wrt (\<lambda>a b. compareFn fragment a b \<le> 0) (arrays sorted_heap 1)"
    by blast
  with a sort_example show ?thesis by simp
qed

section \<open>Idempotence of normalize\<close>

subsection \<open>Code points and code units\<close>

lemma code_points_Cons:
  "\<not> is_high_surrogate a \<Longrightarrow> code_points (a # s) = a # code_points s"
  by (cases s) simp_all

lemma units_bmp: "c < 0x10000 \<Longrightarrow> units_of_point c = [c]"
  by (simp add: units_of_point_def)

lemma units_supplementary:
  assumes "scalar c" and "0x10000 \<le> c"
  shows "\<exists>h l. units_of_point c = [h, l] \<and> is_high_surrogate h \<and> is_low_surrogate l
           \<and> 0x10000 + (h - 0xD800) * 0x400 + (l - 0xDC00) = c"
proof -
  let ?d = "c - 0x10000"
  from assms have d: "?d < 0x100000" by (simp add: scalar_def)
  then have "?d div 0x400 < 0x400" by simp
  moreover have "?d mod 0x400 < 0x400" by simp
  moreover have "?d div 0x400 * 0x400 + ?d mod 0x400 = ?d" by simp
  ultimately show ?thesis
    using assms(2) by (simp add: units_of_point_def is_high_surrogate_def is_low_surrogate_def)
qed

lemma code_points_units:
  "list_all scalar x \<Longrightarrow> code_points (code_units x) = x"
proof (induction x)
  case Nil
  show ?case by (simp add: code_units_def)
next
  case (Cons c x)
  then have c: "scalar c" and ih: "code_points (code_units x) = x" by simp_all
  show ?case
  proof (cases "c < 0x10000")
    case True
    from c have "\<not> is_high_surrogate c" by (auto simp: scalar_def is_high_surrogate_def)
    with True ih show ?thesis by (simp add: code_units_def units_bmp code_points_Cons)
  next
    case False
    with c units_supplementary [of c] obtain h l where
      "units_of_point c = [h, l]" "is_high_surrogate h" "is_low_surrogate l"
      "0x10000 + (h - 0xD800) * 0x400 + (l - 0xDC00) = c" by auto
    with ih show ?thesis by (simp add: code_units_def)
  qed
qed

lemma plain_class_space: "plain_class is_space"
  by (auto simp: plain_class_def is_space_def is_high_surrogate_def is_low_surrogate_def)

lemma plain_class_diacritic: "plain_class is_diacritic"
  by (auto simp: plain_class_def is_diacritic_def is_high_surrogate_def is_low_surrogate_def)

lemma units_plain:
  assumes "plain_class p" and "scalar c"
  shows "(p c \<and> units_of_point c = [c])
         \<or> (\<not> p c \<and> units_of_point c \<noteq> [] \<and> list_all (\<lambda>u. \<not> p u) (units_of_point c))"
proof (cases "c < 0x10000")
  case True
  then show ?thesis by (simp add: units_bmp)
next
  case False
  with assms(2) units_supplementary [of c] obtain h l where
    "units_of_point c = [h, l]" "is_high_surrogate h" "is_low_surrogate l" by auto
  with False assms(1) show ?thesis by (auto simp: plain_class_def)
qed

lemma filter_units:
  assumes "plain_class p" and "list_all scalar x"
  shows "filter (\<lambda>u. \<not> p u) (code_units x) = code_units (filter (\<lambda>c. \<not> p c) x)"
  using assms(2)
proof (induction x)
  case Nil
  show ?case by (simp add: code_units_def)
next
  case (Cons c x)
  then have ih: "filter (\<lambda>u. \<not> p u) (code_units x) = code_units (filter (\<lambda>c. \<not> p c) x)"
    and c: "scalar c" by simp_all
  from units_plain [OF assms(1) c] ih show ?case
    by (auto simp: code_units_def list_all_iff filter_id_conv)
qed

lemma dropWhile_units:
  assumes "plain_class p" and "list_all scalar x"
  shows "dropWhile p (code_units x) = code_units (dropWhile p x)"
  using assms(2)
proof (induction x)
  case Nil
  show ?case by (simp add: code_units_def)
next
  case (Cons c x)
  then have ih: "dropWhile p (code_units x) = code_units (dropWhile p x)"
    and c: "scalar c" by simp_all
  from units_plain [OF assms(1) c] show ?case
  proof
    assume "p c \<and> units_of_point c = [c]"
    with ih show ?thesis by (simp add: code_units_def)
  next
    assume a: "\<not> p c \<and> units_of_point c \<noteq> [] \<and> list_all (\<lambda>u. \<not> p u) (units_of_point c)"
    then obtain u us where u: "units_of_point c = u # us" "\<not> p u"
      by (cases "units_of_point c") auto
    with a show ?thesis by (simp add: code_units_def)
  qed
qed

lemma dropWhile_rev_units:
  assumes "plain_class p" and "list_all scalar x"
  shows "dropWhile p (rev (code_units x)) = rev (code_units (rev (dropWhile p (rev x))))"
  using assms(2)
proof (induction x rule: rev_induct)
  case Nil
  show ?case by (simp add: code_units_def)
next
  case (snoc c x)
  then have ih: "dropWhile p (rev (code_units x)) = rev (code_units (rev (dropWhile p (rev x))))"
    and c: "scalar c" by simp_all
  have r: "rev (code_units (x @ [c])) = rev (units_of_point c) @ rev (code_units x)"
    by (simp add: code_units_def)
  from units_plain [OF assms(1) c] show ?case
  proof
    assume "p c \<and> units_of_point c = [c]"
    with ih r show ?thesis by simp
  next
    assume a: "\<not> p c \<and> units_of_point c \<noteq> [] \<and> list_all (\<lambda>u. \<not> p u) (units_of_point c)"
    then have "rev (units_of_point c) \<noteq> []" "\<not> p (hd (rev (units_of_point c)))"
      by (auto simp: list_all_iff hd_rev)
    then obtain u us where u: "rev (units_of_point c) = u # us" "\<not> p u"
      by (cases "rev (units_of_point c)") auto
    have "dropWhile p (rev (code_units (x @ [c]))) = rev (code_units (x @ [c]))"
      unfolding r u using u(2) by simp
    with a show ?thesis by simp
  qed
qed

lemma scalar_dropWhile: "list_all scalar x \<Longrightarrow> list_all scalar (dropWhile p x)"
  by (auto simp: list_all_iff dest: set_dropWhileD)

lemma trim_units:
  assumes "list_all scalar x"
  shows "trim (code_units x) = code_units (trim x)"
proof -
  let ?y = "dropWhile is_space x"
  from assms have y: "list_all scalar ?y" by (rule scalar_dropWhile)
  have "trim (code_units x) = rev (dropWhile is_space (rev (code_units ?y)))"
    using assms by (simp add: trim_def trimStart_def trimEnd_def dropWhile_units plain_class_space)
  also have "\<dots> = code_units (rev (dropWhile is_space (rev ?y)))"
    using y by (simp add: dropWhile_rev_units plain_class_space)
  finally show ?thesis by (simp add: trim_def trimStart_def trimEnd_def)
qed

lemma collapse_spaces_units:
  "list_all scalar x \<Longrightarrow> collapse_spaces (code_units x) = code_units (collapse_spaces x)"
proof (induction x rule: collapse_spaces.induct)
  case 1
  show ?case by (simp add: code_units_def)
next
  case (2 c cs)
  then have c: "scalar c" and cs: "list_all scalar cs" by simp_all
  show ?case
  proof (cases "is_space c")
    case True
    with units_plain [OF plain_class_space c] have u: "units_of_point c = [c]" by auto
    from cs have d: "list_all scalar (dropWhile is_space cs)" by (rule scalar_dropWhile)
    have "32 < (0x10000 :: nat)" by simp
    then have s: "units_of_point 32 = [32]" by (rule units_bmp)
    from True u have "collapse_spaces (code_units (c # cs))
        = 32 # collapse_spaces (dropWhile is_space (code_units cs))"
      by (simp add: code_units_def)
    also have "\<dots> = 32 # code_units (collapse_spaces (dropWhile is_space cs))"
      using 2(1) [OF True d] cs by (simp add: dropWhile_units plain_class_space)
    finally show ?thesis using True s by (simp add: code_units_def)
  next
    case False
    with units_plain [OF plain_class_space c]
    have u: "list_all (\<lambda>u. \<not> is_space u) (units_of_point c)" by auto
    have "collapse_spaces (us @ t) = us @ collapse_spaces t"
      if "list_all (\<lambda>u. \<not> is_space u) us" for us t
      using that by (induction us) simp_all
    from this [OF u] have "collapse_spaces (code_units (c # cs))
        = units_of_point c @ collapse_spaces (code_units cs)"
      by (simp add: code_units_def)
    with 2(2) [OF False cs] False show ?thesis by (simp add: code_units_def)
  qed
qed

subsection \<open>Canonical ordering\<close>

lemma set_order_insert: "set (order_insert cc c ds) = insert c (set ds)"
  by (induction ds) auto

lemma set_canonical_order: "set (canonical_order cc s) = set s"
  by (induction s) (simp_all add: canonical_order_def set_order_insert)

lemma ordered_tl: "canonically_ordered cc (a # s) \<Longrightarrow> canonically_ordered cc s"
  by (cases s) simp_all

lemma ordered_Cons:
  "canonically_ordered cc (a # s) \<longleftrightarrow>
     canonically_ordered cc s \<and> (s \<noteq> [] \<longrightarrow> \<not> (cc (hd s) \<noteq> 0 \<and> cc (hd s) < cc a))"
  by (cases s) auto

lemma hd_order_insert:
  "hd (order_insert cc c ds) = (if ds \<noteq> [] \<and> cc (hd ds) \<noteq> 0 \<and> cc (hd ds) < cc c then hd ds else c)"
  by (cases ds) simp_all

lemma order_insert_not_Nil: "order_insert cc c ds \<noteq> []"
  by (cases ds) simp_all

lemma ordered_order_insert:
  "canonically_ordered cc ds \<Longrightarrow> canonically_ordered cc (order_insert cc c ds)"
proof (induction ds)
  case Nil
  show ?case by simp
next
  case (Cons d ds)
  show ?case
  proof (cases "cc d \<noteq> 0 \<and> cc d < cc c")
    case True
    from Cons have ih: "canonically_ordered cc (order_insert cc c ds)" by (auto dest: ordered_tl)
    have "\<not> (cc (hd (order_insert cc c ds)) \<noteq> 0 \<and> cc (hd (order_insert cc c ds)) < cc d)"
    proof (cases "ds \<noteq> [] \<and> cc (hd ds) \<noteq> 0 \<and> cc (hd ds) < cc c")
      case t: True
      then have "hd (order_insert cc c ds) = hd ds" by (simp add: hd_order_insert)
      moreover from Cons.prems t have "\<not> (cc (hd ds) \<noteq> 0 \<and> cc (hd ds) < cc d)"
        by (simp add: ordered_Cons)
      ultimately show ?thesis by simp
    next
      case f: False
      then have "hd (order_insert cc c ds) = c" by (simp only: hd_order_insert if_False)
      with True show ?thesis by simp
    qed
    with ih True show ?thesis
      by (simp add: ordered_Cons [of _ d] order_insert_not_Nil)
  next
    case False
    with Cons.prems show ?thesis by auto
  qed
qed

lemma ordered_canonical_order: "canonically_ordered cc (canonical_order cc s)"
  by (induction s) (simp_all add: canonical_order_def ordered_order_insert)

lemma order_insert_ordered: "canonically_ordered cc (c # ds) \<Longrightarrow> order_insert cc c ds = c # ds"
  by (cases ds) auto

lemma canonical_order_ordered: "canonically_ordered cc s \<Longrightarrow> canonical_order cc s = s"
proof (induction s)
  case Nil
  show ?case by (simp add: canonical_order_def)
next
  case (Cons c s)
  then have "canonical_order cc s = s" by (auto dest: ordered_tl)
  then have "canonical_order cc (c # s) = order_insert cc c s" by (simp add: canonical_order_def)
  with Cons.prems show ?case by (simp add: order_insert_ordered)
qed

lemma ordered_lower_bound:
  "canonically_ordered cc (x # s) \<Longrightarrow> cc a \<le> cc x \<Longrightarrow> canonically_ordered cc (a # s)"
  by (cases s) auto

lemma ordered_filter_Cons:
  assumes "\<forall>x\<in>set s. \<not> keep x \<longrightarrow> cc x \<noteq> 0"
  shows "canonically_ordered cc (a # s) \<Longrightarrow> canonically_ordered cc (a # filter keep s)"
  using assms
proof (induction s arbitrary: a)
  case Nil
  show ?case by simp
next
  case (Cons x s)
  from Cons.prems(1) have ax: "\<not> (cc x \<noteq> 0 \<and> cc x < cc a)" and xs: "canonically_ordered cc (x # s)"
    by simp_all
  show ?case
  proof (cases "keep x")
    case True
    from Cons.IH [OF xs] Cons.prems(2) have "canonically_ordered cc (x # filter keep s)" by simp
    with True ax show ?thesis by simp
  next
    case False
    with Cons.prems(2) have "cc x \<noteq> 0" by simp
    with ax have "cc a \<le> cc x" by simp
    with xs have "canonically_ordered cc (a # s)" by (rule ordered_lower_bound)
    from Cons.IH [OF this] Cons.prems(2) False show ?thesis by simp
  qed
qed

lemma ordered_filter:
  assumes "canonically_ordered cc s" and "\<forall>x\<in>set s. \<not> keep x \<longrightarrow> cc x \<noteq> 0"
  shows "canonically_ordered cc (filter keep s)"
  using assms
proof (induction s)
  case Nil
  show ?case by simp
next
  case (Cons x s)
  show ?case
  proof (cases "keep x")
    case True
    with Cons.prems ordered_filter_Cons [of s keep cc x] show ?thesis by simp
  next
    case False
    with Cons show ?thesis by (auto dest: ordered_tl)
  qed
qed

lemma ordered_drop: "canonically_ordered cc y \<Longrightarrow> canonically_ordered cc (drop n y)"
proof (induction n arbitrary: y)
  case 0
  then show ?case by simp
next
  case (Suc n)
  then show ?case by (cases y) (auto dest: ordered_tl)
qed

lemma ordered_take: "canonically_ordered cc y \<Longrightarrow> canonically_ordered cc (take n y)"
proof (induction cc y arbitrary: n rule: canonically_ordered.induct)
  case (1 cc)
  show ?case by simp
next
  case (2 cc a)
  show ?case by (cases n) simp_all
next
  case (3 cc a b s)
  show ?case
  proof (cases n)
    case 0
    then show ?thesis by simp
  next
    case (Suc m)
    from 3 have ih: "canonically_ordered cc (take m (b # s))" by simp
    show ?thesis
    proof (cases m)
      case 0
      with Suc show ?thesis by simp
    next
      case (Suc k)
      with ih 3(2) \<open>n = Suc m\<close> show ?thesis by simp
    qed
  qed
qed

subsection \<open>The white-space steps\<close>

lemma is_space_32: "is_space 32"
  by (simp add: is_space_def)

lemma collapse_spaces_head:
  "collapse_spaces ys = z # zs \<Longrightarrow> \<exists>y ys'. ys = y # ys' \<and> (if is_space y then z = 32 else z = y)"
  by (cases ys) (auto split: if_splits)

lemma collapsed_collapse_spaces: "collapsed (collapse_spaces x)"
proof (induction x rule: collapse_spaces.induct)
  case 1
  show ?case by simp
next
  case (2 c cs)
  show ?case
  proof (cases "is_space c")
    case True
    let ?r = "collapse_spaces (dropWhile is_space cs)"
    show ?thesis
    proof (cases ?r)
      case Nil
      with True show ?thesis by simp
    next
      case (Cons z zs)
      from collapse_spaces_head [OF Cons] obtain y ys'
        where y: "dropWhile is_space cs = y # ys'" "if is_space y then z = 32 else z = y"
        by blast
      from y(1) have "\<not> is_space y" using hd_dropWhile [of is_space cs] by simp
      with y(2) have "\<not> is_space z" by simp
      moreover from 2(1) [OF True] Cons have "collapsed (z # zs)" by simp
      ultimately show ?thesis using True Cons by simp
    qed
  next
    case False
    with 2(2) have "collapsed (collapse_spaces cs)" by simp
    with False show ?thesis by (cases "collapse_spaces cs") simp_all
  qed
qed

lemma collapse_spaces_collapsed: "collapsed y \<Longrightarrow> collapse_spaces y = y"
  by (induction y rule: collapsed.induct) (auto simp: is_space_32)

lemma collapsed_tl: "collapsed (c # cs) \<Longrightarrow> collapsed cs"
  by (cases cs) simp_all

lemma collapsed_drop: "collapsed y \<Longrightarrow> collapsed (drop n y)"
proof (induction n arbitrary: y)
  case 0
  then show ?case by simp
next
  case (Suc n)
  then show ?case by (cases y) (auto dest: collapsed_tl)
qed

lemma collapsed_take: "collapsed y \<Longrightarrow> collapsed (take n y)"
proof (induction y arbitrary: n rule: collapsed.induct)
  case 1
  show ?case by simp
next
  case (2 c)
  then show ?case by (cases n) simp_all
next
  case (3 c d ds)
  show ?case
  proof (cases n)
    case 0
    then show ?thesis by simp
  next
    case (Suc m)
    from 3 have ih: "collapsed (take m (d # ds))" by simp
    show ?thesis
    proof (cases m)
      case 0
      with Suc 3(2) show ?thesis by simp
    next
      case (Suc k)
      with ih 3(2) \<open>n = Suc m\<close> show ?thesis by simp
    qed
  qed
qed

lemma trimStart_drop: "trimStart s = drop (length (takeWhile is_space s)) s"
  by (simp add: trimStart_def dropWhile_eq_drop)

lemma trimEnd_take: "trimEnd s = take (length s - length (takeWhile is_space (rev s))) s"
  by (simp add: trimEnd_def dropWhile_eq_drop rev_drop)

lemma collapsed_trim: "collapsed y \<Longrightarrow> collapsed (trim y)"
  unfolding trim_def
  by (subst trimEnd_take, subst trimStart_drop) (intro collapsed_take collapsed_drop)

lemma trimmed_trim: "trimmed (trim y)"
proof (cases "trim y = []")
  case True
  then show ?thesis by (simp add: trimmed_def)
next
  case False
  let ?y = "dropWhile is_space y"
  let ?d = "dropWhile is_space (rev ?y)"
  have z: "trim y = rev ?d" by (simp add: trim_def trimStart_def trimEnd_def)
  with False have d: "?d \<noteq> []" by simp
  then have "\<not> is_space (hd ?d)" by (rule hd_dropWhile)
  with d z have l: "\<not> is_space (last (trim y))" by (simp add: last_rev)
  have y: "?y \<noteq> []"
  proof
    assume e: "?y = []"
    have "?d = []" unfolding e by simp
    with d show False by simp
  qed
  then have hy: "\<not> is_space (hd ?y)" by (rule hd_dropWhile)
  have "trim y = take (length ?y - length (takeWhile is_space (rev ?y))) ?y"
    using trimEnd_take [of ?y] by (simp add: trim_def trimStart_def)
  with False have "hd (trim y) = hd ?y" by (metis hd_take take_eq_Nil gr0I)
  with hy l show ?thesis by (simp add: trimmed_def)
qed

lemma trim_trimmed: "trimmed z \<Longrightarrow> trim z = z"
proof (cases z)
  case Nil
  then show ?thesis by (simp add: trim_def trimStart_def trimEnd_def)
next
  case (Cons c cs)
  assume "trimmed z"
  with Cons have h: "\<not> is_space c" and l: "\<not> is_space (last z)"
    by (simp_all add: trimmed_def)
  from h Cons have 1: "dropWhile is_space z = z" by simp
  from Cons have zne: "z \<noteq> []" by simp
  then have "rev z \<noteq> []" by simp
  moreover from l have "\<not> is_space (hd (rev z))" by (simp add: hd_rev)
  ultimately have "dropWhile is_space (rev z) = rev z" by (cases "rev z") simp_all
  with 1 show ?thesis by (simp add: trim_def trimStart_def trimEnd_def)
qed

lemma set_collapse_spaces: "set (collapse_spaces x) \<subseteq> insert 32 (set x)"
proof (induction x rule: collapse_spaces.induct)
  case 1
  show ?case by simp
next
  case (2 c cs)
  show ?case
  proof (cases "is_space c")
    case True
    with 2(1) have "set (collapse_spaces (dropWhile is_space cs)) \<subseteq> insert 32 (set (dropWhile is_space cs))"
      by simp
    moreover have "set (dropWhile is_space cs) \<subseteq> set cs" by (auto dest: set_dropWhileD)
    ultimately show ?thesis using True by auto
  next
    case False
    with 2(2) show ?thesis by auto
  qed
qed

lemma set_trim: "set (trim x) \<subseteq> set x"
  by (auto simp: trim_def trimStart_def trimEnd_def dest!: set_dropWhileD)

lemma ordered_related:
  "list_all2 (\<lambda>c d. cc d = cc c) u t \<Longrightarrow> canonically_ordered cc u \<Longrightarrow> canonically_ordered cc t"
proof (induction cc u arbitrary: t rule: canonically_ordered.induct)
  case (1 cc)
  then show ?case by simp
next
  case (2 cc a)
  then show ?case by (auto simp: list_all2_Cons1)
next
  case (3 cc a b s)
  from 3(2) obtain a' b' s' where t: "t = a' # b' # s'" and e: "cc a' = cc a" "cc b' = cc b"
    and r: "list_all2 (\<lambda>c d. cc d = cc c) (b # s) (b' # s')"
    by (auto simp: list_all2_Cons1)
  from 3(1) [OF r] 3(3) have "canonically_ordered cc (b' # s')" by simp
  with 3(3) e t show ?case by simp
qed

lemma ordered_collapse_spaces:
  assumes "cc 32 = 0"
  shows "canonically_ordered cc x \<Longrightarrow> canonically_ordered cc (collapse_spaces x)"
proof (induction x rule: collapse_spaces.induct)
  case 1
  show ?case by simp
next
  case (2 c cs)
  from 2(3) have cs: "canonically_ordered cc cs" by (rule ordered_tl)
  show ?case
  proof (cases "is_space c")
    case True
    from cs have "canonically_ordered cc (dropWhile is_space cs)"
      by (simp add: dropWhile_eq_drop ordered_drop)
    with 2(1) True have "canonically_ordered cc (collapse_spaces (dropWhile is_space cs))" by simp
    with assms True show ?thesis by (simp add: ordered_Cons [of _ 32])
  next
    case False
    with 2(2) cs have ih: "canonically_ordered cc (collapse_spaces cs)" by simp
    have "\<not> (cc (hd (collapse_spaces cs)) \<noteq> 0 \<and> cc (hd (collapse_spaces cs)) < cc c)"
      if ne: "collapse_spaces cs \<noteq> []"
    proof -
      from ne obtain z zs where z: "collapse_spaces cs = z # zs" by (cases "collapse_spaces cs") auto
      from collapse_spaces_head [OF z] obtain y ys'
        where y: "cs = y # ys'" "if is_space y then z = 32 else z = y" by blast
      show ?thesis
      proof (cases "is_space y")
        case True
        with y(2) assms have "cc z = 0" by simp
        with z show ?thesis by simp
      next
        case False
        with y(2) have "z = y" by simp
        moreover from 2(3) y(1) have "\<not> (cc y \<noteq> 0 \<and> cc y < cc c)" by simp
        ultimately show ?thesis using z by simp
      qed
    qed
    with ih False show ?thesis by (simp add: ordered_Cons [of _ c])
  qed
qed

lemma ordered_trim: "canonically_ordered cc y \<Longrightarrow> canonically_ordered cc (trim y)"
  unfolding trim_def
  by (subst trimEnd_take, subst trimStart_drop) (intro ordered_take ordered_drop)

lemma collapsed_related:
  "list_all2 (\<lambda>c d. (is_space d \<longleftrightarrow> is_space c) \<and> (c = 32 \<longrightarrow> d = 32)) u t
     \<Longrightarrow> collapsed u \<Longrightarrow> collapsed t"
proof (induction u arbitrary: t rule: collapsed.induct)
  case 1
  then show ?case by simp
next
  case (2 c)
  then show ?case by (auto simp: list_all2_Cons1)
next
  case (3 c d ds)
  let ?R = "\<lambda>c d. (is_space d \<longleftrightarrow> is_space c) \<and> (c = 32 \<longrightarrow> d = 32)"
  from 3(2) obtain c' d' ds' where t: "t = c' # d' # ds'" and e: "?R c c'" "?R d d'"
    and r: "list_all2 ?R (d # ds) (d' # ds')"
    by (auto simp: list_all2_Cons1)
  from 3(1) [OF r] 3(3) have "collapsed (d' # ds')" by simp
  with 3(3) e t show ?case by auto
qed

lemma trimmed_related:
  assumes "list_all2 (\<lambda>c d. is_space d \<longleftrightarrow> is_space c) u t" and "trimmed u"
  shows "trimmed t"
proof (cases "u = []")
  case True
  with assms(1) show ?thesis by (simp add: trimmed_def)
next
  case False
  from assms(1) have l: "length u = length t" by (rule list_all2_lengthD)
  with False have t: "t \<noteq> []" by auto
  from assms(1) False t have "is_space (hd t) \<longleftrightarrow> is_space (hd u)"
    by (cases u; cases t) simp_all
  moreover from assms(1) False t l have "is_space (last t) \<longleftrightarrow> is_space (last u)"
    by (simp add: last_conv_nth list_all2_conv_all_nth)
  ultimately show ?thesis using assms(2) False t by (simp add: trimmed_def)
qed

subsection \<open>The steps of normalize on code points\<close>

lemma code_points_member:
  "c \<in> set (code_points s) \<Longrightarrow> c \<in> set s \<or> 0x10000 \<le> c"
  by (induction s rule: code_points.induct) (auto split: if_splits)

lemma settled_32: "decomposition_laws D \<Longrightarrow> settled D 32"
  by (simp add: decomposition_laws_def settled_def is_diacritic_def)

lemma scalar_32: "scalar 32"
  by (simp add: scalar_def)

lemma scalar_nfd_points:
  assumes "decomposition_laws D" and "list_all scalar cs"
  shows "list_all scalar (nfd_points D cs)"
proof -
  from assms have "\<forall>c\<in>set cs. \<forall>d\<in>set (decomposition D c). scalar d"
    unfolding decomposition_laws_def list_all_iff by blast
  then show ?thesis
    by (auto simp: nfd_points_def set_canonical_order list_all_iff)
qed

lemma stripped_nfd:
  assumes laws: "decomposition_laws D" and nj: "0x34F \<notin> set cs"
  defines "x \<equiv> remove_accentuation (nfd_points D cs)"
  shows "list_all (settled D) x" and "canonically_ordered (combining_class D) x"
proof -
  let ?d = "concat (map (decomposition D) cs)"
  have closed: "decomposition D e = [e]" if "e \<in> set ?d" for e
    using that laws unfolding decomposition_laws_def by auto
  have no_joiner: "e \<noteq> 0x34F" if "e \<in> set ?d" for e
  proof -
    from that obtain c where c: "c \<in> set cs" "e \<in> set (decomposition D c)" by auto
    from c(1) nj have "c \<noteq> 0x34F" by auto
    with laws have "0x34F \<notin> set (decomposition D c)"
      unfolding decomposition_laws_def by blast
    with c(2) show ?thesis by auto
  qed
  have removed: "combining_class D e \<noteq> 0" if "e \<in> set ?d" "is_diacritic e" for e
    using no_joiner [OF that(1)] that(2) laws unfolding decomposition_laws_def by blast
  have x: "x = filter (\<lambda>c. \<not> is_diacritic c) (canonical_order (combining_class D) ?d)"
    by (simp add: x_def nfd_points_def remove_accentuation_def)
  show "list_all (settled D) x"
    unfolding x list_all_iff using closed by (simp add: set_canonical_order settled_def)
  show "canonically_ordered (combining_class D) x"
    unfolding x
  proof (rule ordered_filter)
    show "canonically_ordered (combining_class D) (canonical_order (combining_class D) ?d)"
      by (rule ordered_canonical_order)
    show "\<forall>e\<in>set (canonical_order (combining_class D) ?d).
            \<not> \<not> is_diacritic e \<longrightarrow> combining_class D e \<noteq> 0"
      using removed by (simp add: set_canonical_order)
  qed
qed

lemma base_fixed:
  assumes laws: "decomposition_laws D"
    and "list_all (settled D) x" and "canonically_ordered (combining_class D) x"
  defines "u \<equiv> trim (collapse_spaces x)"
  shows "list_all (settled D) u" and "canonically_ordered (combining_class D) u"
    and "collapsed u" and "trimmed u"
proof -
  have "set u \<subseteq> insert 32 (set x)"
    unfolding u_def using set_trim [of "collapse_spaces x"] set_collapse_spaces [of x] by blast
  with assms(2) settled_32 [OF laws] show "list_all (settled D) u"
    unfolding list_all_iff by blast
  from laws have "combining_class D 32 = 0" by (simp add: decomposition_laws_def)
  then show "canonically_ordered (combining_class D) u"
    unfolding u_def using assms(3) by (intro ordered_trim ordered_collapse_spaces)
  show "collapsed u" unfolding u_def by (intro collapsed_trim collapsed_collapse_spaces)
  show "trimmed u" unfolding u_def by (rule trimmed_trim)
qed

lemma scalar_base:
  assumes "list_all scalar x"
  shows "list_all scalar (remove_accentuation x)" and "list_all scalar (collapse_spaces x)"
    and "list_all scalar (trim x)"
proof -
  from assms show "list_all scalar (remove_accentuation x)"
    by (simp add: remove_accentuation_def list_all_iff)
  from assms set_collapse_spaces [of x] scalar_32 show "list_all scalar (collapse_spaces x)"
    unfolding list_all_iff by blast
  from assms set_trim [of x] show "list_all scalar (trim x)"
    unfolding list_all_iff by blast
qed

lemma lower_points_related:
  assumes "lower_case_laws D"
  shows "list_all (settled D) u \<Longrightarrow>
     list_all2 (\<lambda>c d. lowered D c d \<and> (c = 32 \<longrightarrow> d = 32)) u (lower_points D before u)"
proof (induction u arbitrary: before)
  case Nil
  show ?case by simp
next
  case (Cons c u)
  then have c: "settled D c" and u: "list_all (settled D) u" by simp_all
  from assms c obtain d where d: "lower_case D before c u = [d]" "lowered D c d"
    unfolding lower_case_laws_def by blast
  from assms d(1) have "c = 32 \<longrightarrow> d = 32"
    unfolding lower_case_laws_def by auto
  with d Cons.IH [OF u, of "c # before"] show ?case by simp
qed

lemma lower_points_fixed:
  "list_all (\<lambda>d. \<forall>before after. lower_case D before d after = [d]) t \<Longrightarrow> lower_points D before t = t"
  by (induction t arbitrary: before) simp_all

lemma decompose_settled: "list_all (settled D) t \<Longrightarrow> concat (map (decomposition D) t) = t"
  by (induction t) (simp_all add: settled_def)

lemma nfd_points_settled:
  assumes "list_all (settled D) t" and "canonically_ordered (combining_class D) t"
  shows "nfd_points D t = t" and "remove_accentuation t = t"
proof -
  from assms show "nfd_points D t = t"
    by (simp add: nfd_points_def decompose_settled canonical_order_ordered)
  from assms(1) show "remove_accentuation t = t"
    by (induction t) (simp_all add: remove_accentuation_def settled_def)
qed

lemma normalize_points:
  assumes laws: "decomposition_laws D" and s: "list_all scalar (code_points s)"
  shows "normalize (unicode_platform D collation) s False False
     = code_units (lower_points D []
         (trim (collapse_spaces (remove_accentuation (nfd_points D (code_points s))))))"
proof -
  let ?N = "nfd_points D (code_points s)"
  let ?x = "remove_accentuation ?N"
  let ?u = "trim (collapse_spaces ?x)"
  from laws s have N: "list_all scalar ?N" by (rule scalar_nfd_points)
  then have x: "list_all scalar ?x" by (rule scalar_base)
  then have w: "list_all scalar (collapse_spaces ?x)" by (rule scalar_base)
  then have u: "list_all scalar ?u" by (rule scalar_base)
  have "remove_accentuation (code_units ?N) = code_units ?x"
    unfolding remove_accentuation_def using plain_class_diacritic N by (rule filter_units)
  then have "trim (collapse_spaces (remove_accentuation (code_units ?N))) = code_units ?u"
    using x w by (simp add: collapse_spaces_units trim_units)
  then show ?thesis
    using u by (simp add: normalize_def unicode_platform_def code_points_units)
qed

text \<open>
  Claim C4, as amended. On every string of well-formed UTF-16 that does not contain
  U+034F, the combining grapheme joiner, \<open>normalize\<close> with both flags off is
  idempotent. The statement holds for the platform of every database that has the
  properties \<open>decomposition_laws\<close> and \<open>lower_case_laws\<close>, and for every
  collation.
\<close>

theorem normalize_idempotent:
  assumes "decomposition_laws D" and "lower_case_laws D"
    and "well_formed s" and "0x34F \<notin> set s"
  shows "normalize (unicode_platform D collation)
           (normalize (unicode_platform D collation) s False False) False False
         = normalize (unicode_platform D collation) s False False"
proof -
  let ?cc = "combining_class D"
  define cs where "cs = code_points s"
  define x where "x = remove_accentuation (nfd_points D cs)"
  define u where "u = trim (collapse_spaces x)"
  define t where "t = lower_points D [] u"
  from assms(3) have scs: "list_all scalar cs" by (simp add: well_formed_def cs_def)
  have n: "normalize (unicode_platform D collation) s False False = code_units t"
    using normalize_points [OF assms(1), of s collation] scs
    by (simp add: cs_def x_def u_def t_def)
  have "0x34F \<notin> set cs"
  proof
    assume "0x34F \<in> set cs"
    from code_points_member [OF this [unfolded cs_def]] assms(4) show False by simp
  qed
  from stripped_nfd [OF assms(1) this]
  have px: "list_all (settled D) x" and ox: "canonically_ordered ?cc x"
    unfolding x_def by simp_all
  from base_fixed [OF assms(1) px ox]
  have pu: "list_all (settled D) u" and ou: "canonically_ordered ?cc u"
    and cu: "collapsed u" and tu: "trimmed u"
    unfolding u_def by simp_all
  from scs assms(1) have "list_all scalar (nfd_points D cs)" by (intro scalar_nfd_points)
  then have "list_all scalar x" unfolding x_def by (rule scalar_base)
  then have "list_all scalar (collapse_spaces x)" by (rule scalar_base)
  then have su: "list_all scalar u" unfolding u_def by (rule scalar_base)
  have r: "list_all2 (\<lambda>c d. lowered D c d \<and> (c = 32 \<longrightarrow> d = 32)) u t"
    unfolding t_def using assms(2) pu by (rule lower_points_related)
  have st: "list_all scalar t"
    using r su by (auto simp: list_all2_conv_all_nth list_all_length lowered_def)
  have pt: "list_all (settled D) t"
    using r by (auto simp: list_all2_conv_all_nth list_all_length lowered_def)
  have ot: "canonically_ordered ?cc t"
  proof (rule ordered_related)
    show "list_all2 (\<lambda>c d. ?cc d = ?cc c) u t"
      using r by (rule list_all2_mono) (simp add: lowered_def)
    show "canonically_ordered ?cc u" by (rule ou)
  qed
  have ct: "collapsed t"
  proof (rule collapsed_related)
    show "list_all2 (\<lambda>c d. (is_space d \<longleftrightarrow> is_space c) \<and> (c = 32 \<longrightarrow> d = 32)) u t"
      using r by (rule list_all2_mono) (simp add: lowered_def)
    show "collapsed u" by (rule cu)
  qed
  have tt: "trimmed t"
  proof (rule trimmed_related)
    show "list_all2 (\<lambda>c d. is_space d \<longleftrightarrow> is_space c) u t"
      using r by (rule list_all2_mono) (simp add: lowered_def)
    show "trimmed u" by (rule tu)
  qed
  have ft: "lower_points D [] t = t"
  proof (rule lower_points_fixed)
    show "list_all (\<lambda>d. \<forall>before after. lower_case D before d after = [d]) t"
      using r by (auto simp: list_all2_conv_all_nth list_all_length lowered_def)
  qed
  from st have "code_points (code_units t) = t" by (rule code_points_units)
  with st have "normalize (unicode_platform D collation) (code_units t) False False
        = code_units (lower_points D [] (trim (collapse_spaces (remove_accentuation (nfd_points D t)))))"
    using normalize_points [OF assms(1), of "code_units t" collation] by simp
  also have "\<dots> = code_units (lower_points D [] (trim (collapse_spaces t)))"
    by (simp only: nfd_points_settled [OF pt ot])
  also have "\<dots> = code_units (lower_points D [] t)"
    by (simp only: collapse_spaces_collapsed [OF ct] trim_trimmed [OF tt])
  also have "\<dots> = code_units t"
    by (simp only: ft)
  finally show ?thesis unfolding n .
qed

subsection \<open>The database of the fragment\<close>

lemma decomposition_parts:
  "list_all (\<lambda>(k, d). d \<noteq> [k] \<and> list_all (\<lambda>x. x < 0xC0 \<or> (0x300 \<le> x \<and> x < 0x340)) d)
     canonical_decomposition"
  by (simp add: canonical_decomposition_def)

lemma decomposition_keys_range:
  "list_all (\<lambda>(k, d). k \<le> 0xFF \<or> (0x340 \<le> k \<and> k \<le> 0x344)) canonical_decomposition"
  by (simp add: canonical_decomposition_def)

lemma decompose_mark:
  assumes "0x300 \<le> c" and "c < 0x340"
  shows "decompose c = [c]"
proof -
  have "map_of canonical_decomposition c = None"
  proof (cases "map_of canonical_decomposition c")
    case (Some d)
    then have "(c, d) \<in> set canonical_decomposition" by (rule map_of_SomeD)
    with decomposition_keys_range have "c \<le> 0xFF \<or> (0x340 \<le> c \<and> c \<le> 0x344)"
      by (auto simp: list_all_iff)
    with assms show ?thesis by simp
  qed simp
  then show ?thesis by (simp add: decompose_def)
qed

lemma decompose_high:
  assumes "0x344 < c"
  shows "decompose c = [c]"
proof -
  have "map_of canonical_decomposition c = None"
  proof (cases "map_of canonical_decomposition c")
    case (Some d)
    then have "(c, d) \<in> set canonical_decomposition" by (rule map_of_SomeD)
    with decomposition_keys_range have "c \<le> 0xFF \<or> (0x340 \<le> c \<and> c \<le> 0x344)"
      by (auto simp: list_all_iff)
    with assms show ?thesis by simp
  qed simp
  then show ?thesis by (simp add: decompose_def)
qed

lemma decompose_parts:
  assumes "d \<in> set (decompose c)"
  shows "(d = c \<and> map_of canonical_decomposition c = None) \<or> d < 0xC0
         \<or> (0x300 \<le> d \<and> d < 0x340)"
proof (cases "map_of canonical_decomposition c")
  case None
  with assms show ?thesis by (simp add: decompose_def)
next
  case (Some ds)
  then have "(c, ds) \<in> set canonical_decomposition" by (rule map_of_SomeD)
  with decomposition_parts have "\<forall>x\<in>set ds. x < 0xC0 \<or> (0x300 \<le> x \<and> x < 0x340)"
    by (auto simp: list_all_iff)
  moreover from Some assms have "d \<in> set ds" by (simp add: decompose_def)
  ultimately show ?thesis by blast
qed

lemma find_covered:
  fixes c :: code_unit
  assumes "covers rs lo hi" and "lo \<le> c" and "c \<le> hi"
  shows "\<exists>l h k. find (\<lambda>(l, h, k). l \<le> c \<and> c \<le> h) (rs @ rest) = Some (l, h, k) \<and> k \<noteq> 0"
  using assms
proof (induction rs arbitrary: lo)
  case Nil
  then show ?case by simp
next
  case (Cons r rs)
  obtain l h k where r: "r = (l, h, k)" by (cases r)
  with Cons.prems have c: "l = lo" "k \<noteq> 0" "covers rs (h + 1) hi" by simp_all
  show ?case
  proof (cases "c \<le> h")
    case True
    with r c Cons.prems(2) show ?thesis by simp
  next
    case False
    then have "h + 1 \<le> c" by simp
    from Cons.IH [OF c(3) this Cons.prems(3)] False r show ?thesis by simp
  qed
qed

lemma find_skipped:
  fixes c :: code_unit and pre rs :: "(code_unit \<times> code_unit \<times> nat) list"
  shows "list_all (\<lambda>(l, h, k). h < c) pre \<Longrightarrow>
   find (\<lambda>(l, h, k). l \<le> c \<and> c \<le> h) (pre @ rs) = find (\<lambda>(l, h, k). l \<le> c \<and> c \<le> h) rs"
proof (induction pre)
  case Nil
  show ?case by simp
next
  case (Cons p pre)
  obtain l h k where p: "p = (l, h, k)" by (cases p)
  with Cons.prems have "h < c" by simp
  then have "\<not> c \<le> h" by simp
  with p Cons show ?case by simp
qed

lemma covers_below: "covers marks_below_joiner 0x300 0x34E"
  by (simp add: marks_below_joiner_def)

lemma covers_above: "covers marks_above_joiner 0x350 0x36F"
  by (simp add: marks_above_joiner_def)

lemma mark_class:
  assumes "is_diacritic c" and "c \<noteq> 0x34F"
  shows "ccc c \<noteq> 0"
proof (cases "c \<le> 0x34E")
  case True
  with assms(1) find_covered [OF covers_below, of c "marks_above_joiner @ hebrew_points"]
  show ?thesis
    by (auto simp: ccc_def combining_classes_def is_diacritic_def)
next
  case False
  with assms have c: "0x350 \<le> c" "c \<le> 0x36F" by (simp_all add: is_diacritic_def)
  then have "list_all (\<lambda>(l, h, k). h < c) marks_below_joiner"
    by (simp add: marks_below_joiner_def)
  then have "find (\<lambda>(l, h, k). l \<le> c \<and> c \<le> h) combining_classes
             = find (\<lambda>(l, h, k). l \<le> c \<and> c \<le> h) (marks_above_joiner @ hebrew_points)"
    unfolding combining_classes_def by (rule find_skipped)
  with find_covered [OF covers_above c, of hebrew_points] show ?thesis
    by (auto simp: ccc_def)
qed

lemma lower_unit_class: "ccc (lower_unit c) = ccc c"
proof (cases "lower_unit c = c")
  case True
  then show ?thesis by simp
next
  case False
  then have "c \<le> 0xDE" "lower_unit c = c + 32"
    by (auto simp: lower_unit_def split: if_splits)
  then have "c < 0x300" "lower_unit c < 0x300" by simp_all
  then show ?thesis by (simp add: ccc_low)
qed

lemma decomposition_keys:
  "map fst canonical_decomposition =
   [0xC0, 0xC1, 0xC2, 0xC3, 0xC4, 0xC5, 0xC7, 0xC8, 0xC9, 0xCA, 0xCB, 0xCC, 0xCD, 0xCE, 0xCF,
    0xD1, 0xD2, 0xD3, 0xD4, 0xD5, 0xD6, 0xD9, 0xDA, 0xDB, 0xDC, 0xDD,
    0xE0, 0xE1, 0xE2, 0xE3, 0xE4, 0xE5, 0xE7, 0xE8, 0xE9, 0xEA, 0xEB, 0xEC, 0xED, 0xEE, 0xEF,
    0xF1, 0xF2, 0xF3, 0xF4, 0xF5, 0xF6, 0xF9, 0xFA, 0xFB, 0xFC, 0xFD, 0xFF,
    0x340, 0x341, 0x343, 0x344]"
  by (simp add: canonical_decomposition_def)

lemma capitals_checked:
  "list_all (\<lambda>c. c \<noteq> 0xD7 \<longrightarrow> c \<notin> set (map fst canonical_decomposition)
                \<longrightarrow> c + 32 \<notin> set (map fst canonical_decomposition)) [0xC0..<0xDF]"
  unfolding decomposition_keys by simp

lemma lowered_undecomposed:
  assumes "0xC0 \<le> c" "c \<le> 0xDE" "c \<noteq> 0xD7" "map_of canonical_decomposition c = None"
  shows "map_of canonical_decomposition (c + 32) = None"
proof -
  from assms(1,2) have "c \<in> {0xC0..<0xDF}" by simp
  then have "c \<in> set [0xC0..<0xDF]" by (simp only: set_upt)
  with capitals_checked assms(3)
  have "c \<notin> set (map fst canonical_decomposition)
          \<longrightarrow> c + 32 \<notin> set (map fst canonical_decomposition)"
    unfolding list_all_iff by blast
  with assms(4) show ?thesis by (simp add: map_of_eq_None_iff)
qed

lemma is_space_lower_unit: "is_space (lower_unit c) = is_space c"
  by (auto simp: is_space_def lower_unit_def)

lemma lower_unit_idem: "lower_unit (lower_unit c) = lower_unit c"
  by (auto simp: lower_unit_def)

lemma decompose_undecomposed:
  assumes "decompose c = [c]"
  shows "map_of canonical_decomposition c = None"
proof (cases "map_of canonical_decomposition c")
  case (Some d)
  then have "(c, d) \<in> set canonical_decomposition" by (rule map_of_SomeD)
  with decomposition_parts have "d \<noteq> [c]" by (auto simp: list_all_iff)
  with Some assms show ?thesis by (simp add: decompose_def)
qed simp

lemma decompose_closed:
  assumes "d \<in> set (decompose c)"
  shows "decompose d = [d] \<and> (d = c \<or> d < 0x340) \<and> (scalar c \<longrightarrow> scalar d)"
proof -
  from decompose_parts [OF assms]
  consider "d = c" "map_of canonical_decomposition c = None" | "d < 0xC0" | "0x300 \<le> d" "d < 0x340"
    by auto
  then show ?thesis
  proof cases
    case 1
    then show ?thesis by (simp add: decompose_def)
  next
    case 2
    then show ?thesis by (simp add: decompose_low scalar_def)
  next
    case 3
    then show ?thesis by (simp add: decompose_mark scalar_def)
  qed
qed

lemma fragment_decomposition:
  assumes "d \<in> set (decomposition fragment_data c)"
  shows "decomposition fragment_data d = [d]" and "scalar c \<longrightarrow> scalar d"
    and "c \<noteq> 0x34F \<longrightarrow> d \<noteq> 0x34F"
proof -
  have "decomposition fragment_data d = [d] \<and> (scalar c \<longrightarrow> scalar d) \<and> (c \<noteq> 0x34F \<longrightarrow> d \<noteq> 0x34F)"
  proof (cases "c = 0x2F800")
    case True
    with assms have "d = 0x4E3D" by (simp add: fragment_data_def)
    then show ?thesis by (simp add: fragment_data_def decompose_high scalar_def)
  next
    case False
    with assms have "d \<in> set (decompose c)" by (simp add: fragment_data_def)
    from decompose_closed [OF this] False show ?thesis
      by (auto simp: fragment_data_def)
  qed
  then show "decomposition fragment_data d = [d]" "scalar c \<longrightarrow> scalar d"
    "c \<noteq> 0x34F \<longrightarrow> d \<noteq> 0x34F" by simp_all
qed

lemma fragment_decomposition_laws: "decomposition_laws fragment_data"
  unfolding decomposition_laws_def
proof (intro conjI allI impI ballI)
  fix c assume "scalar c"
  then show "list_all scalar (decomposition fragment_data c)"
    using fragment_decomposition(2) [of _ c] by (auto simp: list_all_iff)
next
  fix c d assume "d \<in> set (decomposition fragment_data c)"
  then show "decomposition fragment_data d = [d]" by (rule fragment_decomposition)
next
  fix c :: code_point assume "c \<noteq> 0x34F"
  then show "0x34F \<notin> set (decomposition fragment_data c)"
    using fragment_decomposition(3) [of _ c] by blast
next
  fix c assume "is_diacritic c \<and> c \<noteq> 0x34F"
  then show "combining_class fragment_data c \<noteq> 0"
    by (simp add: fragment_data_def mark_class)
next
  show "decomposition fragment_data 32 = [32]"
    by (simp add: fragment_data_def decompose_low)
  show "combining_class fragment_data 32 = 0"
    by (simp add: fragment_data_def ccc_low)
qed

lemma settled_lower_unit:
  assumes "settled fragment_data c"
  shows "settled fragment_data (lower_unit c)"
proof (cases "lower_unit c = c")
  case True
  with assms show ?thesis by simp
next
  case False
  then have r: "(0x41 \<le> c \<and> c \<le> 0x5A) \<or> (0xC0 \<le> c \<and> c \<le> 0xDE \<and> c \<noteq> 0xD7)"
    and l: "lower_unit c = c + 32"
    by (auto simp: lower_unit_def split: if_splits)
  from r have c: "c \<noteq> 0x2F800" "c + 32 \<noteq> 0x2F800" "\<not> is_diacritic (c + 32)"
    by (auto simp: is_diacritic_def)
  from assms c(1) have "decompose c = [c]" by (simp add: settled_def fragment_data_def)
  then have u: "map_of canonical_decomposition c = None" by (rule decompose_undecomposed)
  have "decompose (c + 32) = [c + 32]"
  proof (cases "c \<le> 0x5A")
    case True
    then have "c + 32 < 0xC0" by simp
    then show ?thesis by (rule decompose_low)
  next
    case False
    with r u have "map_of canonical_decomposition (c + 32) = None"
      by (intro lowered_undecomposed) simp_all
    then show ?thesis by (simp add: decompose_def)
  qed
  with c l show ?thesis by (simp add: settled_def fragment_data_def)
qed

lemma scalar_lower_unit: "scalar c \<Longrightarrow> scalar (lower_unit c)"
  by (auto simp: scalar_def lower_unit_def)

lemma fragment_lower_case_laws: "lower_case_laws fragment_data"
  unfolding lower_case_laws_def
proof (intro conjI allI impI)
  fix before after :: "code_point list" and c
  assume s: "settled fragment_data c"
  have "lowered fragment_data c (lower_unit c)"
    unfolding lowered_def
  proof (intro conjI allI impI)
    show "settled fragment_data (lower_unit c)" using s by (rule settled_lower_unit)
    show "scalar (lower_unit c)" if "scalar c" using that by (rule scalar_lower_unit)
    show "combining_class fragment_data (lower_unit c) = combining_class fragment_data c"
      by (simp add: fragment_data_def lower_unit_class)
    show "is_space (lower_unit c) = is_space c" by (rule is_space_lower_unit)
    show "lower_case fragment_data b (lower_unit c) a = [lower_unit c]" for b a
      by (simp add: fragment_data_def lower_unit_idem)
  qed
  then show "\<exists>d. lower_case fragment_data before c after = [d] \<and> lowered fragment_data c d"
    by (simp add: fragment_data_def)
next
  show "lower_case fragment_data before 32 after = [32]" for before after
    by (simp add: fragment_data_def lower_unit_def)
qed

subsection \<open>The two platforms of the fragment\<close>

text \<open>
  On strings without surrogates the platform of this database is the fragment platform
  of the evaluations.
\<close>

lemma code_points_plain: "list_all (\<lambda>u. u < 0xD800) s \<Longrightarrow> code_points s = s"
proof (induction s)
  case Nil
  show ?case by simp
next
  case (Cons a s)
  then have "\<not> is_high_surrogate a" by (simp add: is_high_surrogate_def)
  with Cons show ?case by (simp add: code_points_Cons)
qed

lemma code_units_plain: "list_all (\<lambda>u. u < 0xD800) s \<Longrightarrow> code_units s = s"
  by (induction s) (simp_all add: code_units_def units_of_point_def)

lemma decompose_plain:
  assumes "c < 0xD800" and "d \<in> set (decompose c)"
  shows "d < 0xD800"
  using decompose_parts [OF assms(2)] assms(1) by auto

lemma nfd_fragment_plain:
  assumes "list_all (\<lambda>u. u < 0xD800) s"
  shows "list_all (\<lambda>u. u < 0xD800) (nfd_fragment s)"
    and "nfd (unicode_platform fragment_data collation) s = nfd_fragment s"
proof -
  from assms have "\<forall>d\<in>set (concat (map decompose s)). d < 0xD800"
    by (auto simp: list_all_iff dest: decompose_plain)
  then show p: "list_all (\<lambda>u. u < 0xD800) (nfd_fragment s)"
    by (simp add: nfd_fragment_def set_canonical_order list_all_iff)
  from assms have m: "map (decomposition fragment_data) s = map decompose s"
    by (auto simp: fragment_data_def list_all_iff)
  have c: "combining_class fragment_data = ccc"
    by (simp add: fragment_data_def)
  have "nfd_points fragment_data s = nfd_fragment s"
    by (simp only: nfd_points_def nfd_fragment_def m c)
  with assms p show "nfd (unicode_platform fragment_data collation) s = nfd_fragment s"
    by (simp add: unicode_platform_def code_points_plain code_units_plain)
qed

lemma lower_points_fragment: "lower_points fragment_data before s = map lower_unit s"
  by (induction s arbitrary: before) (simp_all add: fragment_data_def)

lemma lower_fragment_plain:
  assumes "list_all (\<lambda>u. u < 0xD800) s"
  shows "toLowerCase (unicode_platform fragment_data collation) s = lower_fragment s"
proof -
  have "lower_unit c < 0xD800" if "c < 0xD800" for c
    using that by (auto simp: lower_unit_def)
  with assms have "list_all (\<lambda>u. u < 0xD800) (map lower_unit s)"
    by (simp add: list_all_iff)
  with assms show ?thesis
    by (simp add: unicode_platform_def lower_fragment_def code_points_plain code_units_plain
        lower_points_fragment)
qed

lemma fragment_agrees:
  assumes "list_all (\<lambda>u. u < 0xD800) s"
  shows "normalize (unicode_platform fragment_data compare_units) s strict stripColors
         = normalize fragment s strict stripColors"
proof -
  let ?x = "trim (collapse_spaces (remove_accentuation (nfd_fragment s)))"
  have "set ?x \<subseteq> insert 32 (set (nfd_fragment s))"
    using set_trim [of "collapse_spaces (remove_accentuation (nfd_fragment s))"]
      set_collapse_spaces [of "remove_accentuation (nfd_fragment s)"]
    by (auto simp: remove_accentuation_def)
  with nfd_fragment_plain(1) [OF assms] have "list_all (\<lambda>u. u < 0xD800) ?x"
    unfolding list_all_iff by auto
  then have "toLowerCase (unicode_platform fragment_data compare_units) ?x = lower_fragment ?x"
    by (rule lower_fragment_plain)
  then show ?thesis
    by (simp add: normalize_def nfd_fragment_plain(2) [OF assms] fragment_def)
qed

subsection \<open>The theorem on the database of the fragment\<close>

lemmas points_eval = normalize_def unicode_platform_def fragment_data_def nfd_points_def
  canonical_order_def code_units_def units_of_point_def is_high_surrogate_def
  is_low_surrogate_def lower_unit_def trim_def trimStart_def trimEnd_def is_space_def
  remove_accentuation_def is_diacritic_def lit_def decompose_low decompose_values ccc_low
  ccc_values

lemma normalize_marked_example:
  "normalize (unicode_platform fragment_data compare_units) marked_example False False
     = [0x61, 0x5B4, 0x5B7, 0x20, 0x62, 0x4E3D]"
  by (simp add: marked_example_def points_eval ccc_high)

lemma normalize_joiner_example:
  "normalize (unicode_platform fragment_data compare_units) joiner_example False False = [0x5B7, 0x5B4]"
  "normalize (unicode_platform fragment_data compare_units) [0x5B7, 0x5B4] False False = [0x5B4, 0x5B7]"
  by (simp_all add: joiner_example_def points_eval)

lemma normalize_surrogate_example:
  "normalize (unicode_platform fragment_data compare_units) surrogate_example False False = [0xD87E, 0xDC00]"
  "normalize (unicode_platform fragment_data compare_units) [0xD87E, 0xDC00] False False = [0x4E3D]"
  by (simp_all add: surrogate_example_def points_eval decompose_high ccc_high)

theorem normalize_idempotent_witness:
  "normalize (unicode_platform fragment_data compare_units)
     (normalize (unicode_platform fragment_data compare_units) marked_example False False) False False
     = [0x61, 0x5B4, 0x5B7, 0x20, 0x62, 0x4E3D]"
proof -
  have w: "well_formed marked_example"
    by (simp add: well_formed_def marked_example_def lit_def scalar_def is_high_surrogate_def
        is_low_surrogate_def)
  have j: "0x34F \<notin> set marked_example"
    by (simp add: marked_example_def lit_def)
  from normalize_idempotent [OF fragment_decomposition_laws fragment_lower_case_laws w j,
      of compare_units]
  show ?thesis by (simp only: normalize_marked_example)
qed

text \<open>
  The claim as the specification states it, for every string, fails. U+034F lies in the
  range that \<open>normalize\<close> removes and has combining class 0: between the Hebrew points
  patah (U+05B7, class 17) and hiriq (U+05B4, class 14) it keeps canonical ordering
  from exchanging them, and once it is removed, the decomposition of the second call
  exchanges them. And a combining mark between two surrogates keeps them from being
  read as one code point: once the mark is removed they are U+2F800, which the second
  call decomposes.
\<close>

theorem normalize_idempotent_counterexample:
  "normalize (unicode_platform fragment_data compare_units) joiner_example False False = [0x5B7, 0x5B4]
   \<and> normalize (unicode_platform fragment_data compare_units)
       (normalize (unicode_platform fragment_data compare_units) joiner_example False False) False False
       = [0x5B4, 0x5B7]
   \<and> normalize (unicode_platform fragment_data compare_units)
       (normalize (unicode_platform fragment_data compare_units) joiner_example False False) False False
       \<noteq> normalize (unicode_platform fragment_data compare_units) joiner_example False False
   \<and> normalize (unicode_platform fragment_data compare_units) surrogate_example False False
       = [0xD87E, 0xDC00]
   \<and> normalize (unicode_platform fragment_data compare_units)
       (normalize (unicode_platform fragment_data compare_units) surrogate_example False False) False False
       = [0x4E3D]
   \<and> normalize (unicode_platform fragment_data compare_units)
       (normalize (unicode_platform fragment_data compare_units) surrogate_example False False) False False
       \<noteq> normalize (unicode_platform fragment_data compare_units) surrogate_example False False"
  unfolding normalize_joiner_example normalize_surrogate_example by simp

section \<open>Strict normalization\<close>

lemma strict_kept: "\<not> strict_removed c \<longleftrightarrow> is_ascii_alphanumeric c"
  by (auto simp: strict_removed_def is_word_def is_space_def is_ascii_alphanumeric_def)

text \<open>
  Claim C7, as amended. Strict normalization is the base canonicalization with every
  code unit removed that is not one of the ASCII letters and digits: the result is a
  contiguous string of ASCII letters and digits, and \<^verbatim>\<open>"a-_-b"\<close> becomes
  \<^verbatim>\<open>"ab"\<close>.
\<close>

theorem normalize_strict_spec:
  "normalize P s True False = filter is_ascii_alphanumeric (normalize P s False False)
   \<and> (\<forall>c\<in>set (normalize P s True False). is_ascii_alphanumeric c)
   \<and> normalize fragment (lit ''a-_-b'') True False = lit ''ab''"
proof -
  have 1: "normalize P s True False = filter is_ascii_alphanumeric (normalize P s False False)"
    by (simp add: normalize_def strict_kept)
  then have 2: "\<forall>c\<in>set (normalize P s True False). is_ascii_alphanumeric c" by simp
  have 3: "normalize fragment (lit ''a-_-b'') True False = lit ''ab''"
    by (simp add: normalize_eval)
  from 1 2 3 show ?thesis by blast
qed

theorem normalize_strict_spec_witness:
  "normalize fragment strict_example True False = lit ''123myfantastic''
   \<and> list_all is_ascii_alphanumeric (lit ''123myfantastic'')"
proof -
  have e: "normalize fragment strict_example False False = lit ''123_my fantastic''"
    by (simp add: strict_example_def normalize_marked)
  have f: "filter is_ascii_alphanumeric (lit ''123_my fantastic'') = lit ''123myfantastic''"
    by (simp add: is_ascii_alphanumeric_def lit_def)
  from normalize_strict_spec [of fragment strict_example] e f
  show ?thesis by (simp add: list_all_iff)
qed

text \<open>
  The claim as the specification states it, with every letter of the input preserved,
  fails: the sharp s U+00DF is a letter without decomposition and without upper case
  in one code point; the base canonicalization keeps it, strict normalization as the
  specification words it keeps it, and strict normalization removes it.
\<close>

theorem normalize_strict_counterexample:
  "latin1_letter 0xDF
   \<and> spec_normalize_strict fragment [0x61, 0xDF, 0x62] = [0x61, 0xDF, 0x62]
   \<and> normalize fragment [0x61, 0xDF, 0x62] True False = [0x61, 0x62]"
proof -
  have e: "normalize fragment [0x61, 0xDF, 0x62] False False = [0x61, 0xDF, 0x62]"
    by (simp add: normalize_marked)
  have s: "normalize fragment [0x61, 0xDF, 0x62] True False
           = filter (\<lambda>c. \<not> strict_removed c) (normalize fragment [0x61, 0xDF, 0x62] False False)"
    by (simp add: normalize_def)
  show ?thesis unfolding s spec_normalize_strict_def e
    by (simp add: latin1_letter_def strict_removed_def is_word_def is_space_def)
qed

section \<open>The table renderer: inconsistent rows\<close>

subsection \<open>Traversals that may throw\<close>

lemma collect_Inr_iff: "collect rs = Inr ys \<longleftrightarrow> rs = map Inr ys"
proof (induction rs arbitrary: ys)
  case Nil
  show ?case by auto
next
  case (Cons r rs)
  show ?case
  proof (cases r)
    case (Inl e)
    then show ?thesis by auto
  next
    case (Inr y)
    show ?thesis
    proof (cases "collect rs")
      case (Inl e)
      with Cons [of "tl ys"] Inr show ?thesis by (cases ys) auto
    next
      case r: (Inr zs)
      with Cons [of zs] Inr show ?thesis by (cases ys) auto
    qed
  qed
qed

lemma try_map_pure: "\<forall>x\<in>set xs. f x = Inr (g x) \<Longrightarrow> try_map f xs = Inr (map g xs)"
  by (simp add: try_map_def collect_Inr_iff)

lemma try_map_first_error:
  assumes "\<forall>x\<in>set pre. \<exists>y. f x = Inr y" and "f x = Inl e"
  shows "try_map f (pre @ x # post) = Inl e"
  using assms(1)
proof (induction pre)
  case Nil
  with assms(2) show ?case by (simp add: try_map_Cons)
next
  case (Cons p pre)
  then obtain y where "f p = Inr y" by auto
  with Cons show ?case by (simp add: try_map_Cons)
qed

lemma try_map_constant_error:
  assumes "\<exists>x\<in>set xs. f x = Inl e" and "\<forall>x\<in>set xs. \<forall>e'. f x = Inl e' \<longrightarrow> e' = e"
  shows "try_map f xs = Inl e"
  using assms
proof (induction xs)
  case Nil
  then show ?case by simp
next
  case (Cons x xs)
  show ?case
  proof (cases "f x")
    case (Inl e')
    with Cons.prems(2) have "e' = e" by simp
    with Inl show ?thesis by (simp add: try_map_Cons)
  next
    case (Inr y)
    with Cons.prems have "\<exists>x\<in>set xs. f x = Inl e" by auto
    with Cons have "try_map f xs = Inl e" by simp
    with Inr show ?thesis by (simp add: try_map_Cons)
  qed
qed

lemma cell_text_converts: "converts r h \<Longrightarrow> cell_text r h = Inr (cell_string r h)"
  by (cases "cell_text r h") (simp_all add: converts_def cell_string_def)

lemma absent_undefined: "absent r h \<Longrightarrow> get_property r h = JUndefined"
  by (simp add: absent_def get_property_def)

lemma truthy_toString:
  "truthy v \<Longrightarrow> v \<noteq> JUndefined \<and> v \<noteq> JNull"
  by (cases v) simp_all

lemma truthy_cell_text:
  "truthy (get_property r h) \<Longrightarrow> cell_text r h = toString_method (get_property r h)"
  by (auto simp: cell_text_def Let_def dest: truthy_toString)

lemma columnWidths_converts:
  assumes "\<forall>row\<in>set strArr. \<forall>h\<in>set headers. converts row h"
  shows "columnWidths P strArr headers =
     Inr (map (\<lambda>header. Math_max (length header)
                 (map (\<lambda>row. length (normalize P (cell_string row header) False True) + 1) strArr))
              headers)"
  unfolding columnWidths_def
proof (rule try_map_pure, rule ballI)
  fix header assume h: "header \<in> set headers"
  have "try_map (\<lambda>row. and_then (cell_text row header)
                  (\<lambda>str. let strLength = length (normalize P str False True) in Inr (strLength + 1)))
          strArr
        = Inr (map (\<lambda>row. length (normalize P (cell_string row header) False True) + 1) strArr)"
    using assms h by (intro try_map_pure) (simp add: cell_text_converts and_then_def)
  then show "and_then
          (try_map (\<lambda>row. and_then (cell_text row header)
                  (\<lambda>str. let strLength = length (normalize P str False True) in Inr (strLength + 1)))
             strArr)
          (\<lambda>lengths. Inr (Math_max (length header) lengths))
        = Inr (Math_max (length header)
                 (map (\<lambda>row. length (normalize P (cell_string row header) False True) + 1) strArr))"
    by (simp add: and_then_def)
qed

lemma format_cell_cases:
  assumes "converts r h"
  shows "format_cell P widths r (h, i) =
     (if inconsistent_cell P r h then Inl (inconsistent_row r)
      else Inr (fmtCell P widths (cell_string r h) i))"
proof (cases "truthy (get_property r h)")
  case False
  then show ?thesis by (simp add: format_cell_def inconsistent_cell_def)
next
  case True
  then have a: "\<not> absent r h" by (auto dest: absent_undefined)
  from True have "toString_method (get_property r h) = cell_text r h"
    by (simp add: truthy_cell_text)
  with assms have "toString_method (get_property r h) = Inr (cell_string r h)"
    by (simp add: cell_text_converts)
  with True a assms show ?thesis
    by (simp add: format_cell_def inconsistent_cell_def cell_text_converts and_then_def)
qed

lemma fst_enumerate_headers: "map fst (enumerate_headers headers) = headers"
  by (simp add: enumerate_headers_def)

lemma enumerate_headers_member: "(h, i) \<in> set (enumerate_headers headers) \<Longrightarrow> h \<in> set headers"
  by (auto simp: enumerate_headers_def dest: set_zip_leftD)

lemma format_row_consistent:
  assumes "\<forall>h\<in>set headers. converts r h" and "\<forall>h\<in>set headers. \<not> inconsistent_cell P r h"
  shows "format_row P widths headers r =
     Inr (join chars_y (map (\<lambda>(h, i). fmtCell P widths (cell_string r h) i) (enumerate_headers headers)))"
proof -
  have "try_map (format_cell P widths r) (enumerate_headers headers)
        = Inr (map (\<lambda>(h, i). fmtCell P widths (cell_string r h) i) (enumerate_headers headers))"
  proof (rule try_map_pure, rule ballI)
    fix hi assume m: "hi \<in> set (enumerate_headers headers)"
    obtain h i where hi: "hi = (h, i)" by (cases hi)
    with m have "h \<in> set headers" by (auto dest: enumerate_headers_member)
    with assms hi show "format_cell P widths r hi
        = Inr ((\<lambda>(h, i). fmtCell P widths (cell_string r h) i) hi)"
      by (simp add: format_cell_cases)
  qed
  then show ?thesis by (simp add: format_row_def and_then_def)
qed

lemma format_row_inconsistent:
  assumes "\<forall>h\<in>set headers. converts r h" and "\<exists>h\<in>set headers. inconsistent_cell P r h"
  shows "format_row P widths headers r = Inl (inconsistent_row r)"
proof -
  from assms(2) obtain h where h: "h \<in> set headers" "inconsistent_cell P r h" by blast
  from h(1) have "h \<in> set (map fst (enumerate_headers headers))"
    by (simp only: fst_enumerate_headers)
  then obtain i where i: "(h, i) \<in> set (enumerate_headers headers)" by auto
  from h assms(1) have "format_cell P widths r (h, i) = Inl (inconsistent_row r)"
    by (simp add: format_cell_cases)
  with i have "\<exists>hi\<in>set (enumerate_headers headers). format_cell P widths r hi = Inl (inconsistent_row r)"
    by blast
  moreover have "\<forall>hi\<in>set (enumerate_headers headers). \<forall>e'. format_cell P widths r hi = Inl e'
                   \<longrightarrow> e' = inconsistent_row r"
  proof (intro ballI allI impI)
    fix hi e' assume m: "hi \<in> set (enumerate_headers headers)" and e: "format_cell P widths r hi = Inl e'"
    obtain h' i' where hi: "hi = (h', i')" by (cases hi)
    with m have "h' \<in> set headers" by (auto dest: enumerate_headers_member)
    with assms(1) have "converts r h'" by simp
    from format_cell_cases [OF this, of P widths i'] e hi show "e' = inconsistent_row r"
      by (simp split: if_splits)
  qed
  ultimately have "try_map (format_cell P widths r) (enumerate_headers headers) = Inl (inconsistent_row r)"
    by (rule try_map_constant_error)
  then show ?thesis by (simp add: format_row_def and_then_def)
qed

subsection \<open>The entries of a record as a string\<close>

lemma join_pairs:
  "join sep (map (\<lambda>(k, t). k @ sep @ t) kts) = join sep (concat (map (\<lambda>(k, t). [k, t]) kts))"
proof (induction kts)
  case Nil
  show ?case by simp
next
  case (Cons kt kts)
  obtain k t where kt: "kt = (k, t)" by (cases kt)
  show ?case
  proof (cases kts)
    case Nil
    with kt show ?thesis by simp
  next
    case (Cons kt' kts')
    obtain k' t' where kt': "kt' = (k', t')" by (cases kt')
    from Cons.IH Cons kt' have
      "join sep ((k' @ sep @ t') # map (\<lambda>(k, t). k @ sep @ t) kts')
         = join sep (k' # t' # concat (map (\<lambda>(k, t). [k, t]) kts'))" by simp
    with kt Cons kt' show ?thesis by simp
  qed
qed

lemma ToString_pair:
  "ToString (JArray [JString k, v]) =
     (case (if v = JUndefined \<or> v = JNull then Inr [] else ToString v) of
        Inl e \<Rightarrow> Inl e | Inr t \<Rightarrow> Inr (k @ lit '','' @ t))"
  by (simp add: and_then_def split: sum.split)

lemma value_text_converts:
  "(if v = JUndefined \<or> v = JNull then Inr [] else ToString v) = Inr t \<Longrightarrow> value_text v = t"
  by (auto simp: value_text_def split: if_splits)

lemma entries_flattened:
  assumes "\<not> isl (entries_toString r)"
  shows "entries_toString r = Inr (flattened r)"
proof -
  let ?e = "\<lambda>x. if x = JUndefined \<or> x = JNull then Inr [] else ToString x"
  let ?pairs = "map (\<lambda>(k, v). JArray [JString k, v]) (own r)"
  have e: "entries_toString r = and_then (collect (map ?e ?pairs)) (\<lambda>texts. Inr (join (lit '','') texts))"
    by (simp add: entries_toString_def)
  with assms obtain texts where c: "collect (map ?e ?pairs) = Inr texts"
    by (cases "collect (map ?e ?pairs)") (simp_all add: and_then_def)
  then have m: "map ?e ?pairs = map Inr texts" by (simp add: collect_Inr_iff)
  have "texts = map (\<lambda>(k, v). k @ lit '','' @ value_text v) (own r)"
    using m
  proof (induction "own r" arbitrary: texts r)
    case Nil
    then show ?case by simp
  next
    case (Cons kv kvs)
    obtain k v where kv: "kv = (k, v)" by (cases kv)
    from Cons(2) [symmetric] Cons(3) obtain t ts where ts: "texts = t # ts"
      by (cases texts) auto
    from Cons(2) [symmetric] Cons(3) ts kv
    have h: "ToString (JArray [JString k, v]) = Inr t"
      and r: "map ?e (map (\<lambda>(k, v). JArray [JString k, v]) kvs) = map Inr ts"
      by simp_all
    from h obtain tv where tv: "?e v = Inr tv" "t = k @ lit '','' @ tv"
      unfolding ToString_pair by (auto split: sum.splits)
    from tv(1) have "value_text v = tv" by (rule value_text_converts)
    moreover from Cons(1) [of "r\<lparr>own := kvs\<rparr>" ts] r
    have "ts = map (\<lambda>(k, v). k @ lit '','' @ value_text v) kvs" by simp
    ultimately show ?case using ts tv(2) kv Cons(2) [symmetric] by simp
  qed
  then have "join (lit '','') texts = flattened r"
    unfolding flattened_def
    using join_pairs [of "lit '',''" "map (\<lambda>(k, v). (k, value_text v)) (own r)"]
    by (simp add: o_def case_prod_unfold)
  with e c show ?thesis by (simp add: and_then_def)
qed

lemma String_of_inconsistent_row:
  "\<not> isl (entries_toString r) \<Longrightarrow> String_of_error (inconsistent_row r) = error_text r"
  by (simp add: inconsistent_row_def error_text_def entries_flattened lit_def)

subsection \<open>The outcomes of table\<close>

lemma table_first_inconsistent:
  assumes s: "strArr = pre @ r # post"
    and conv: "\<forall>q\<in>set strArr. \<forall>h\<in>set (Object_keys (hd strArr)). converts q h"
    and pre: "\<forall>q\<in>set pre. \<forall>h\<in>set (Object_keys (hd strArr)). \<not> inconsistent_cell P q h"
    and r: "\<exists>h\<in>set (Object_keys (hd strArr)). inconsistent_cell P r h"
  shows "table P strArr = Inr (String_of_error (inconsistent_row r))"
proof -
  let ?H = "Object_keys (hd strArr)"
  obtain widths where w: "columnWidths P strArr ?H = Inr widths"
    using columnWidths_converts [OF conv] by blast
  have "\<forall>q\<in>set pre. \<exists>y. format_row P widths ?H q = Inr y"
  proof
    fix q assume q: "q \<in> set pre"
    with s conv have "\<forall>h\<in>set ?H. converts q h" by simp
    moreover from q pre have "\<forall>h\<in>set ?H. \<not> inconsistent_cell P q h" by simp
    ultimately show "\<exists>y. format_row P widths ?H q = Inr y"
      by (simp add: format_row_consistent)
  qed
  moreover have "format_row P widths ?H r = Inl (inconsistent_row r)"
    using conv s r by (intro format_row_inconsistent) simp_all
  ultimately have "try_map (format_row P widths ?H) (pre @ r # post) = Inl (inconsistent_row r)"
    by (rule try_map_first_error)
  then have "try_map (format_row P widths ?H) strArr = Inl (inconsistent_row r)"
    by (simp only: s)
  moreover have "length strArr \<noteq> 0" using s by simp
  ultimately show ?thesis
    using w by (simp add: table_def Let_def and_then_def)
qed

lemma table_some_inconsistent:
  assumes some: "\<exists>r\<in>set strArr. \<exists>h\<in>set (Object_keys (hd strArr)). inconsistent_cell P r h"
    and conv: "\<forall>q\<in>set strArr. \<forall>h\<in>set (Object_keys (hd strArr)). converts q h"
  shows "\<exists>pre r post. strArr = pre @ r # post
           \<and> (\<forall>q\<in>set pre. \<forall>h\<in>set (Object_keys (hd strArr)). \<not> inconsistent_cell P q h)
           \<and> (\<exists>h\<in>set (Object_keys (hd strArr)). inconsistent_cell P r h)
           \<and> (\<exists>text. table P strArr = Inr text)
           \<and> (\<not> isl (entries_toString r) \<longrightarrow> table P strArr = Inr (error_text r))"
proof -
  let ?bad = "\<lambda>r. \<exists>h\<in>set (Object_keys (hd strArr)). inconsistent_cell P r h"
  from some obtain pre r post where s: "strArr = pre @ r # post" and r: "?bad r"
    and pre: "\<forall>q\<in>set pre. \<not> ?bad q"
    using split_list_first_prop [of strArr ?bad] by blast
  from pre have p: "\<forall>q\<in>set pre. \<forall>h\<in>set (Object_keys (hd strArr)). \<not> inconsistent_cell P q h"
    by blast
  from table_first_inconsistent [OF s conv p r]
  have t: "table P strArr = Inr (String_of_error (inconsistent_row r))" .
  then have "\<not> isl (entries_toString r) \<longrightarrow> table P strArr = Inr (error_text r)"
    by (simp add: String_of_inconsistent_row)
  with t s p r show ?thesis by blast
qed

lemma table_consistent:
  assumes ne: "strArr \<noteq> []"
    and conv: "\<forall>q\<in>set strArr. \<forall>h\<in>set (Object_keys (hd strArr)). converts q h"
    and ok: "\<forall>q\<in>set strArr. \<forall>h\<in>set (Object_keys (hd strArr)). \<not> inconsistent_cell P q h"
  shows "\<exists>widths.
           columnWidths P strArr (Object_keys (hd strArr)) = Inr widths
           \<and> table P strArr =
               Inr (join [10]
                     ([createSeparator widths chars_xlUp chars_xDown chars_xrUp,
                       [0x2502, 32]
                         @ join chars_y (map (\<lambda>(h, i). fmtCell P widths h i)
                                          (enumerate_headers (Object_keys (hd strArr))))
                         @ [32, 0x2502],
                       createSeparator widths chars_yLeft chars_full chars_yRight]
                      @ map (\<lambda>r. [0x2502, 32]
                                  @ join chars_y (map (\<lambda>(h, i). fmtCell P widths (cell_string r h) i)
                                                   (enumerate_headers (Object_keys (hd strArr))))
                                  @ [32, 0x2502])
                            strArr
                      @ [createSeparator widths chars_xlDown chars_xUp chars_xrDown]))"
proof -
  let ?H = "Object_keys (hd strArr)"
  obtain widths where w: "columnWidths P strArr ?H = Inr widths"
    using columnWidths_converts [OF conv] by blast
  let ?row = "\<lambda>r. join chars_y (map (\<lambda>(h, i). fmtCell P widths (cell_string r h) i) (enumerate_headers ?H))"
  have "try_map (format_row P widths ?H) strArr = Inr (map ?row strArr)"
    using conv ok by (intro try_map_pure) (simp add: format_row_consistent)
  moreover have "trimStart chars_y = [0x2502, 32]" "trimEnd chars_y = [32, 0x2502]"
    by (simp_all add: trimStart_def trimEnd_def chars_y_def is_space_def)
  ultimately have "table P strArr =
               Inr (join [10]
                     ([createSeparator widths chars_xlUp chars_xDown chars_xrUp,
                       [0x2502, 32]
                         @ join chars_y (map (\<lambda>(h, i). fmtCell P widths h i) (enumerate_headers ?H))
                         @ [32, 0x2502],
                       createSeparator widths chars_yLeft chars_full chars_yRight]
                      @ map (\<lambda>r. [0x2502, 32] @ ?row r @ [32, 0x2502]) strArr
                      @ [createSeparator widths chars_xlDown chars_xUp chars_xrDown]))"
    using ne w by (simp add: table_def Let_def and_then_def o_def)
  with w show ?thesis by blast
qed

lemma map_of_filter_member:
  "h \<in> set hs \<Longrightarrow> map_of (filter (\<lambda>(k, v). k \<in> set hs) kvs) h = map_of kvs h"
  by (induction kvs) auto

lemma get_property_only_columns:
  "h \<in> set hs \<Longrightarrow> get_property (only_columns hs r) h = get_property r h"
  by (simp add: get_property_def only_columns_def map_of_filter_member split: option.split)

lemma cell_text_only_columns:
  "h \<in> set hs \<Longrightarrow> cell_text (only_columns hs r) h = cell_text r h"
  by (simp add: cell_text_def get_property_only_columns)

lemma Object_keys_only_columns:
  "Object_keys (only_columns (Object_keys r) r) = Object_keys r"
proof -
  have "filter (\<lambda>(k, v). k \<in> fst ` set kvs) kvs = kvs" for kvs :: "(ustring \<times> jsvalue) list"
    by (rule filter_True) force
  then show ?thesis by (simp add: Object_keys_def only_columns_def)
qed

lemma absent_only_columns:
  "h \<in> set hs \<Longrightarrow> absent (only_columns hs r) h = absent r h"
  by (simp add: absent_def only_columns_def map_of_filter_member)

lemma inconsistent_cell_only_columns:
  "h \<in> set hs \<Longrightarrow> inconsistent_cell P (only_columns hs r) h = inconsistent_cell P r h"
  by (simp add: inconsistent_cell_def absent_only_columns get_property_only_columns
      cell_string_def cell_text_only_columns)

lemma converts_only_columns:
  "h \<in> set hs \<Longrightarrow> converts (only_columns hs r) h = converts r h"
  by (simp add: converts_def cell_text_only_columns)

lemma table_unfold:
  assumes "strArr \<noteq> []" and "Object_keys (hd strArr) = H" and "columnWidths P strArr H = Inr widths"
  shows "table P strArr =
     (case try_map (format_row P widths H) strArr of
        Inl e \<Rightarrow> Inr (String_of_error e)
      | Inr dataRows \<Rightarrow>
          Inr (join [10]
                ([createSeparator widths chars_xlUp chars_xDown chars_xrUp,
                  trimStart chars_y
                    @ join chars_y (map (\<lambda>(h, i). fmtCell P widths h i) (enumerate_headers H))
                    @ trimEnd chars_y,
                  createSeparator widths chars_yLeft chars_full chars_yRight]
                 @ map (\<lambda>r. [0x2502, 32] @ r @ [32, 0x2502]) dataRows
                 @ [createSeparator widths chars_xlDown chars_xUp chars_xrDown])))"
  using assms by (simp add: table_def Let_def and_then_def)

lemma table_only_columns:
  assumes ne: "strArr \<noteq> []"
    and conv: "\<forall>q\<in>set strArr. \<forall>h\<in>set (Object_keys (hd strArr)). converts q h"
    and ok: "\<forall>q\<in>set strArr. \<forall>h\<in>set (Object_keys (hd strArr)). \<not> inconsistent_cell P q h"
  shows "table P (map (only_columns (Object_keys (hd strArr))) strArr) = table P strArr"
proof -
  let ?H = "Object_keys (hd strArr)"
  let ?S = "map (only_columns ?H) strArr"
  from ne have H: "Object_keys (hd ?S) = ?H"
    by (simp add: hd_map Object_keys_only_columns)
  have conv': "\<forall>q\<in>set ?S. \<forall>h\<in>set ?H. converts q h"
    using conv by (simp add: converts_only_columns)
  have ok': "\<forall>q\<in>set ?S. \<forall>h\<in>set ?H. \<not> inconsistent_cell P q h"
    using ok by (simp add: inconsistent_cell_only_columns)
  have cs: "\<forall>h\<in>set ?H. cell_string (only_columns ?H q) h = cell_string q h" for q
    by (simp add: cell_string_def cell_text_only_columns)
  have w: "columnWidths P ?S ?H = columnWidths P strArr ?H"
    unfolding columnWidths_converts [OF conv] columnWidths_converts [OF conv']
    using cs by (simp add: o_def cong: map_cong)
  obtain widths where ws: "columnWidths P strArr ?H = Inr widths"
    using columnWidths_converts [OF conv] by blast
  have rows: "try_map (format_row P widths ?H) ?S = try_map (format_row P widths ?H) strArr"
  proof -
    have "format_row P widths ?H (only_columns ?H q) = format_row P widths ?H q"
      if "q \<in> set strArr" for q
    proof -
      from that conv ok conv' ok'
      have "format_row P widths ?H (only_columns ?H q) =
          Inr (join chars_y (map (\<lambda>(h, i). fmtCell P widths (cell_string (only_columns ?H q) h) i)
                              (enumerate_headers ?H)))"
        and "format_row P widths ?H q =
          Inr (join chars_y (map (\<lambda>(h, i). fmtCell P widths (cell_string q h) i)
                              (enumerate_headers ?H)))"
        by (simp_all add: format_row_consistent)
      moreover have "map (\<lambda>(h, i). fmtCell P widths (cell_string (only_columns ?H q) h) i)
                        (enumerate_headers ?H)
                   = map (\<lambda>(h, i). fmtCell P widths (cell_string q h) i) (enumerate_headers ?H)"
        using cs [of q] by (auto dest: enumerate_headers_member)
      ultimately show ?thesis by simp
    qed
    then show ?thesis by (simp add: try_map_def o_def cong: map_cong)
  qed
  from ne have ne': "?S \<noteq> []" by simp
  from w ws have ws': "columnWidths P ?S ?H = Inr widths" by simp
  show ?thesis
    unfolding table_unfold [OF ne' H ws'] table_unfold [OF ne refl ws] rows ..
qed

subsection \<open>The records of the examples\<close>

lemmas cell_eval = inconsistent_cell_def absent_def converts_def cell_string_def value_eval

lemma inconsistent_example_split:
  "inconsistent_example =
     [object_literal [(lit ''Key'', JString (lit ''Value'')), (lit ''Key2'', JString (lit ''Value 2''))],
      object_literal [(lit ''Key'', JString (lit ''Value3'')), (lit ''Key2'', JString (lit ''Value4''))]]
     @ object_literal [(lit ''Key'', JString (lit ''Value5'')), (lit ''Key3'', JString (lit ''Value6''))] # []"
  by (simp add: inconsistent_example_def)

lemma inconsistent_example_keys:
  "Object_keys (hd inconsistent_example) = [lit ''Key'', lit ''Key2'']"
  by (simp add: inconsistent_example_def Object_keys_def object_literal_def)

lemma inconsistent_example_converts:
  "\<forall>q\<in>set inconsistent_example. \<forall>h\<in>set (Object_keys (hd inconsistent_example)). converts q h"
  unfolding inconsistent_example_keys
  by (simp add: inconsistent_example_def converts_def value_eval)

lemma inconsistent_example_entries:
  "\<forall>q\<in>set inconsistent_example. \<not> isl (entries_toString q)"
  by (simp add: inconsistent_example_def value_eval)

lemma inconsistent_example_consistent:
  "\<forall>q\<in>set [object_literal [(lit ''Key'', JString (lit ''Value'')), (lit ''Key2'', JString (lit ''Value 2''))],
      object_literal [(lit ''Key'', JString (lit ''Value3'')), (lit ''Key2'', JString (lit ''Value4''))]].
     \<forall>h\<in>set (Object_keys (hd inconsistent_example)). \<not> inconsistent_cell fragment q h"
  unfolding inconsistent_example_keys
  by (simp add: cell_eval normalize_eval)

lemma inconsistent_example_absent:
  "absent (object_literal [(lit ''Key'', JString (lit ''Value5'')), (lit ''Key3'', JString (lit ''Value6''))])
     (lit ''Key2'')"
  by (simp add: cell_eval)

lemma inconsistent_example_flattened:
  "flattened (object_literal [(lit ''Key'', JString (lit ''Value5'')), (lit ''Key3'', JString (lit ''Value6''))])
     = lit ''Key,Value5,Key3,Value6''"
  by (simp add: flattened_def value_text_def object_literal_def lit_def)

lemma rendered_record_AB:
  "table fragment [record_A, record_AB] =
     Inr (join [10]
     [[0x250C, 0x2500, 0x2500, 0x2500, 0x2500, 0x2510],
      0x2502 # lit '' A  '' @ [0x2502],
      [0x251C, 0x2500, 0x2500, 0x2500, 0x2500, 0x2524],
      0x2502 # lit '' x  '' @ [0x2502],
      0x2502 # lit '' y  '' @ [0x2502],
      [0x2514, 0x2500, 0x2500, 0x2500, 0x2500, 0x2518]])"
  by (simp add: record_A_def record_AB_def table_eval normalize_eval escape_eval)

lemma rendered_record_constructor:
  "table fragment [record_constructor, record_a] =
     Inr (join [10]
     [0x250C # repeat [0x2500] 38 @ [0x2510],
      0x2502 # lit '' constructor                          '' @ [0x2502],
      0x251C # repeat [0x2500] 38 @ [0x2524],
      0x2502 # lit '' x                                    '' @ [0x2502],
      0x2502 # lit '' function Object() { [native code] }  '' @ [0x2502],
      0x2514 # repeat [0x2500] 38 @ [0x2518]])"
  by (simp add: record_constructor_def record_a_def table_eval normalize_eval escape_eval)

lemma thrown_record_symbol:
  "table fragment [record_symbol, record_empty]
     = Inl (TypeError (lit ''Cannot convert a Symbol value to a string''))"
  by (simp add: record_symbol_def record_empty_def table_eval)

subsection \<open>The theorems\<close>

text \<open>
  Claim C3, as amended. The cells that \<open>table\<close> looks at are those under the keys of
  the first record. When converting these cells to strings throws nothing, and some
  row has under a key of the first record a cell that is absent or falsy or whose
  string fails \<open>validate\<close>, then \<open>table\<close> returns a string and does not throw;
  the string is the error string with the flattened own key/value pairs of the first
  such row, when the entries of that row convert to strings without an exception.
\<close>

theorem table_inconsistent_row:
  assumes "\<forall>q\<in>set strArr. \<forall>h\<in>set (Object_keys (hd strArr)). converts q h"
    and "\<exists>r\<in>set strArr. \<exists>h\<in>set (Object_keys (hd strArr)). inconsistent_cell P r h"
  shows "\<exists>pre r post. strArr = pre @ r # post
           \<and> (\<forall>q\<in>set pre. \<forall>h\<in>set (Object_keys (hd strArr)). \<not> inconsistent_cell P q h)
           \<and> (\<exists>h\<in>set (Object_keys (hd strArr)). inconsistent_cell P r h)
           \<and> (\<exists>text. table P strArr = Inr text)
           \<and> (\<not> isl (entries_toString r) \<longrightarrow>
                table P strArr =
                  Inr (lit ''Error: Unable to represent data. Row '' @ flattened r
                       @ lit '' is not consistent with the rest of the table.''))"
  using table_some_inconsistent [OF assms(2) assms(1)]
  unfolding error_text_def .

theorem table_inconsistent_row_witness:
  "table fragment inconsistent_example =
     Inr (lit ''Error: Unable to represent data. Row Key,Value5,Key3,Value6 is not consistent with the rest of the table.'')"
proof -
  let ?r1 = "object_literal [(lit ''Key'', JString (lit ''Value'')), (lit ''Key2'', JString (lit ''Value 2''))]"
  let ?r2 = "object_literal [(lit ''Key'', JString (lit ''Value3'')), (lit ''Key2'', JString (lit ''Value4''))]"
  let ?r3 = "object_literal [(lit ''Key'', JString (lit ''Value5'')), (lit ''Key3'', JString (lit ''Value6''))]"
  let ?H = "Object_keys (hd inconsistent_example)"
  have "inconsistent_cell fragment ?r3 (lit ''Key2'')"
    using inconsistent_example_absent by (simp add: inconsistent_cell_def)
  then have some: "\<exists>r\<in>set inconsistent_example. \<exists>h\<in>set ?H. inconsistent_cell fragment r h"
    unfolding inconsistent_example_keys by (simp add: inconsistent_example_def)
  from table_inconsistent_row [OF inconsistent_example_converts some]
  obtain pre r post where s: "inconsistent_example = pre @ r # post"
    and r: "\<exists>h\<in>set ?H. inconsistent_cell fragment r h"
    and t: "\<not> isl (entries_toString r) \<longrightarrow>
            table fragment inconsistent_example =
               Inr (lit ''Error: Unable to represent data. Row '' @ flattened r
                    @ lit '' is not consistent with the rest of the table.'')"
    by blast
  have m: "r \<in> set inconsistent_example" unfolding s by simp
  then have "r = ?r1 \<or> r = ?r2 \<or> r = ?r3" by (simp add: inconsistent_example_def)
  with r inconsistent_example_consistent have r3: "r = ?r3" by auto
  from m inconsistent_example_entries have "\<not> isl (entries_toString r)" by simp
  with t have "table fragment inconsistent_example =
               Inr (lit ''Error: Unable to represent data. Row '' @ flattened r
                    @ lit '' is not consistent with the rest of the table.'')"
    by blast
  with r3 have "table fragment inconsistent_example =
               Inr (lit ''Error: Unable to represent data. Row '' @ lit ''Key,Value5,Key3,Value6''
                    @ lit '' is not consistent with the rest of the table.'')"
    by (simp only: inconsistent_example_flattened)
  then show ?thesis by (simp add: lit_def)
qed

text \<open>
  The claim as the specification states it fails. A cell under a key that the first
  record lacks is not looked at: the second record below has the empty string under
  \<^verbatim>\<open>B\<close> and the table is rendered. And an exception of the conversion of a cell to
  a string is thrown before the \<^verbatim>\<open>try\<close> block and is not caught: with a symbol
  in an array in the first record, and an empty cell in the second, \<open>table\<close> throws
  a \<^verbatim>\<open>TypeError\<close>.
\<close>

theorem table_inconsistent_row_counterexample:
  "\<not> truthy (get_property record_AB (lit ''B''))
   \<and> table fragment [record_A, record_AB] =
     Inr (join [10]
     [[0x250C, 0x2500, 0x2500, 0x2500, 0x2500, 0x2510],
      0x2502 # lit '' A  '' @ [0x2502],
      [0x251C, 0x2500, 0x2500, 0x2500, 0x2500, 0x2524],
      0x2502 # lit '' x  '' @ [0x2502],
      0x2502 # lit '' y  '' @ [0x2502],
      [0x2514, 0x2500, 0x2500, 0x2500, 0x2500, 0x2518]])
   \<and> \<not> truthy (get_property record_empty (lit ''A''))
   \<and> table fragment [record_symbol, record_empty]
       = Inl (TypeError (lit ''Cannot convert a Symbol value to a string''))"
  unfolding rendered_record_AB thrown_record_symbol
  by (simp add: record_AB_def record_empty_def value_eval)

text \<open>
  Claim C2, as amended. When converting the cells under the keys of the first record
  to strings throws nothing: a record that has no property, own or inherited, under a
  key of the first record makes \<open>table\<close> return an error string for the whole
  render, that of the first row with an inconsistent cell; and own keys beyond those of
  the first record are not looked at: when no cell under a key of the first record is
  inconsistent, the table is rendered, with the borders, the header and one line for
  every record, made of its cells under the keys of the first record, and it is the
  table of the records without their other keys.
\<close>

theorem table_missing_key:
  assumes "\<forall>q\<in>set strArr. \<forall>h\<in>set (Object_keys (hd strArr)). converts q h"
  shows "((\<exists>r\<in>set strArr. \<exists>h\<in>set (Object_keys (hd strArr)). absent r h)
      \<longrightarrow> (\<exists>pre r post. strArr = pre @ r # post
           \<and> (\<forall>q\<in>set pre. \<forall>h\<in>set (Object_keys (hd strArr)). \<not> inconsistent_cell P q h)
           \<and> (\<exists>h\<in>set (Object_keys (hd strArr)). inconsistent_cell P r h)
           \<and> table P strArr = Inr (String_of_error (inconsistent_row r))
           \<and> (\<not> isl (entries_toString r) \<longrightarrow>
                table P strArr =
                  Inr (lit ''Error: Unable to represent data. Row '' @ flattened r
                       @ lit '' is not consistent with the rest of the table.''))))
   \<and> (strArr \<noteq> []
       \<and> (\<forall>r\<in>set strArr. \<forall>h\<in>set (Object_keys (hd strArr)). \<not> inconsistent_cell P r h)
      \<longrightarrow> table P strArr = table P (map (only_columns (Object_keys (hd strArr))) strArr)
          \<and> (\<exists>widths.
                columnWidths P strArr (Object_keys (hd strArr)) = Inr widths
                \<and> table P strArr =
                    Inr (join [10]
                          ([createSeparator widths chars_xlUp chars_xDown chars_xrUp,
                            [0x2502, 32]
                              @ join chars_y (map (\<lambda>(h, i). fmtCell P widths h i)
                                               (enumerate_headers (Object_keys (hd strArr))))
                              @ [32, 0x2502],
                            createSeparator widths chars_yLeft chars_full chars_yRight]
                           @ map (\<lambda>r. [0x2502, 32]
                                       @ join chars_y
                                           (map (\<lambda>(h, i). fmtCell P widths (cell_string r h) i)
                                                (enumerate_headers (Object_keys (hd strArr))))
                                       @ [32, 0x2502])
                                 strArr
                           @ [createSeparator widths chars_xlDown chars_xUp chars_xrDown]))))"
proof (intro conjI impI)
  let ?bad = "\<lambda>r. \<exists>h\<in>set (Object_keys (hd strArr)). inconsistent_cell P r h"
  assume "\<exists>r\<in>set strArr. \<exists>h\<in>set (Object_keys (hd strArr)). absent r h"
  then have "\<exists>r\<in>set strArr. ?bad r"
    unfolding inconsistent_cell_def by blast
  then obtain pre r post where s: "strArr = pre @ r # post" and r: "?bad r"
    and pre: "\<forall>q\<in>set pre. \<not> ?bad q"
    using split_list_first_prop [of strArr ?bad] by blast
  from pre have p: "\<forall>q\<in>set pre. \<forall>h\<in>set (Object_keys (hd strArr)). \<not> inconsistent_cell P q h"
    by blast
  from table_first_inconsistent [OF s assms p r]
  have t: "table P strArr = Inr (String_of_error (inconsistent_row r))" .
  then have "\<not> isl (entries_toString r) \<longrightarrow>
                table P strArr =
                  Inr (lit ''Error: Unable to represent data. Row '' @ flattened r
                       @ lit '' is not consistent with the rest of the table.'')"
    by (simp add: String_of_inconsistent_row error_text_def)
  with t s p r
  show "\<exists>pre r post. strArr = pre @ r # post
           \<and> (\<forall>q\<in>set pre. \<forall>h\<in>set (Object_keys (hd strArr)). \<not> inconsistent_cell P q h)
           \<and> (\<exists>h\<in>set (Object_keys (hd strArr)). inconsistent_cell P r h)
           \<and> table P strArr = Inr (String_of_error (inconsistent_row r))
           \<and> (\<not> isl (entries_toString r) \<longrightarrow>
                table P strArr =
                  Inr (lit ''Error: Unable to represent data. Row '' @ flattened r
                       @ lit '' is not consistent with the rest of the table.''))"
    by blast
next
  assume b: "strArr \<noteq> []
       \<and> (\<forall>r\<in>set strArr. \<forall>h\<in>set (Object_keys (hd strArr)). \<not> inconsistent_cell P r h)"
  with assms show "table P strArr = table P (map (only_columns (Object_keys (hd strArr))) strArr)"
    by (simp add: table_only_columns)
  from b assms show "\<exists>widths.
                columnWidths P strArr (Object_keys (hd strArr)) = Inr widths
                \<and> table P strArr =
                    Inr (join [10]
                          ([createSeparator widths chars_xlUp chars_xDown chars_xrUp,
                            [0x2502, 32]
                              @ join chars_y (map (\<lambda>(h, i). fmtCell P widths h i)
                                               (enumerate_headers (Object_keys (hd strArr))))
                              @ [32, 0x2502],
                            createSeparator widths chars_yLeft chars_full chars_yRight]
                           @ map (\<lambda>r. [0x2502, 32]
                                       @ join chars_y
                                           (map (\<lambda>(h, i). fmtCell P widths (cell_string r h) i)
                                                (enumerate_headers (Object_keys (hd strArr))))
                                       @ [32, 0x2502])
                                 strArr
                           @ [createSeparator widths chars_xlDown chars_xUp chars_xrDown]))"
    by (intro table_consistent) simp_all
qed

theorem table_missing_key_witness:
  "table fragment inconsistent_example =
     Inr (lit ''Error: Unable to represent data. Row Key,Value5,Key3,Value6 is not consistent with the rest of the table.'')
   \<and> table fragment [record_A, record_AB]
       = table fragment [record_A, object_literal [(lit ''A'', JString (lit ''y''))]]"
proof
  let ?r1 = "object_literal [(lit ''Key'', JString (lit ''Value'')), (lit ''Key2'', JString (lit ''Value 2''))]"
  let ?r2 = "object_literal [(lit ''Key'', JString (lit ''Value3'')), (lit ''Key2'', JString (lit ''Value4''))]"
  let ?r3 = "object_literal [(lit ''Key'', JString (lit ''Value5'')), (lit ''Key3'', JString (lit ''Value6''))]"
  let ?H = "Object_keys (hd inconsistent_example)"
  have some: "\<exists>r\<in>set inconsistent_example. \<exists>h\<in>set ?H. absent r h"
    unfolding inconsistent_example_keys
    using inconsistent_example_absent by (simp add: inconsistent_example_def)
  from table_missing_key [OF inconsistent_example_converts, of fragment] some
  obtain pre r post where s: "inconsistent_example = pre @ r # post"
    and r: "\<exists>h\<in>set ?H. inconsistent_cell fragment r h"
    and t: "\<not> isl (entries_toString r) \<longrightarrow>
            table fragment inconsistent_example =
               Inr (lit ''Error: Unable to represent data. Row '' @ flattened r
                    @ lit '' is not consistent with the rest of the table.'')"
    by blast
  have m: "r \<in> set inconsistent_example" unfolding s by simp
  then have "r = ?r1 \<or> r = ?r2 \<or> r = ?r3" by (simp add: inconsistent_example_def)
  with r inconsistent_example_consistent have r3: "r = ?r3" by auto
  from m inconsistent_example_entries have "\<not> isl (entries_toString r)" by simp
  with t have "table fragment inconsistent_example =
               Inr (lit ''Error: Unable to represent data. Row '' @ flattened r
                    @ lit '' is not consistent with the rest of the table.'')"
    by blast
  with r3 have "table fragment inconsistent_example =
               Inr (lit ''Error: Unable to represent data. Row '' @ lit ''Key,Value5,Key3,Value6''
                    @ lit '' is not consistent with the rest of the table.'')"
    by (simp only: inconsistent_example_flattened)
  then show "table fragment inconsistent_example =
     Inr (lit ''Error: Unable to represent data. Row Key,Value5,Key3,Value6 is not consistent with the rest of the table.'')"
    by (simp add: lit_def)
next
  let ?S = "[record_A, record_AB]"
  have k: "Object_keys (hd ?S) = [lit ''A'']"
    by (simp add: record_A_def Object_keys_def object_literal_def)
  have conv: "\<forall>q\<in>set ?S. \<forall>h\<in>set (Object_keys (hd ?S)). converts q h"
    unfolding k by (simp add: record_A_def record_AB_def converts_def value_eval)
  have ok: "?S \<noteq> [] \<and> (\<forall>r\<in>set ?S. \<forall>h\<in>set (Object_keys (hd ?S)). \<not> inconsistent_cell fragment r h)"
    unfolding k by (simp add: record_A_def record_AB_def cell_eval normalize_eval)
  have o: "map (only_columns (Object_keys (hd ?S))) ?S
             = [record_A, object_literal [(lit ''A'', JString (lit ''y''))]]"
    unfolding k by (simp add: record_A_def record_AB_def only_columns_def object_literal_def lit_def)
  from table_missing_key [OF conv, of fragment] ok
  have "table fragment ?S = table fragment (map (only_columns (Object_keys (hd ?S))) ?S)"
    by blast
  then show "table fragment ?S = table fragment [record_A, object_literal [(lit ''A'', JString (lit ''y''))]]"
    by (simp only: o)
qed

text \<open>
  The claim as the specification states it, for every difference of the key sets,
  fails: a second record with the extra key \<^verbatim>\<open>B\<close> is rendered, without that cell,
  and a second record without the key \<^verbatim>\<open>constructor\<close> of the first is rendered
  with the function that every object inherits under that name.
\<close>

theorem table_extra_key_counterexample:
  "set (Object_keys record_AB) \<noteq> set (Object_keys record_A)
   \<and> table fragment [record_A, record_AB] =
     Inr (join [10]
     [[0x250C, 0x2500, 0x2500, 0x2500, 0x2500, 0x2510],
      0x2502 # lit '' A  '' @ [0x2502],
      [0x251C, 0x2500, 0x2500, 0x2500, 0x2500, 0x2524],
      0x2502 # lit '' x  '' @ [0x2502],
      0x2502 # lit '' y  '' @ [0x2502],
      [0x2514, 0x2500, 0x2500, 0x2500, 0x2500, 0x2518]])
   \<and> set (Object_keys record_a) \<noteq> set (Object_keys record_constructor)
   \<and> table fragment [record_constructor, record_a] =
     Inr (join [10]
     [0x250C # repeat [0x2500] 38 @ [0x2510],
      0x2502 # lit '' constructor                          '' @ [0x2502],
      0x251C # repeat [0x2500] 38 @ [0x2524],
      0x2502 # lit '' x                                    '' @ [0x2502],
      0x2502 # lit '' function Object() { [native code] }  '' @ [0x2502],
      0x2514 # repeat [0x2500] 38 @ [0x2518]])"
  unfolding rendered_record_AB rendered_record_constructor
  by (simp add: record_A_def record_AB_def record_a_def record_constructor_def Object_keys_def
      object_literal_def lit_def)

section \<open>The table renderer: column widths\<close>






text \<open>
  Where \<open>normalize\<close> changes the length of a cell, the width is not that of the
  theorem: the header \<^verbatim>\<open>N\<close> over a cell of four code units with two spaces in a
  row gets the width 4, and the line of the cell is one code unit longer than the
  borders and the header.
\<close>

lemma table_normalized_cell:
  "columnWidths fragment width_example (Object_keys (hd width_example)) = Inr [4]"
  "table fragment width_example =
     Inr (join [10]
     [0x250C # repeat [0x2500] 6 @ [0x2510],
      0x2502 # lit '' N    '' @ [0x2502],
      0x251C # repeat [0x2500] 6 @ [0x2524],
      0x2502 # lit '' a  b  '' @ [0x2502],
      0x2514 # repeat [0x2500] 6 @ [0x2518]])"
  by (simp_all add: width_example_def table_eval normalize_eval escape_eval)

end
